theory Spec2Isabelle
  imports Complex_Main
begin

section \<open>Texts and numbers\<close>

text \<open>
  The program is \<^verbatim>\<open>src/price_tracker.py\<close>. A Python \<^verbatim>\<open>str\<close> is modelled as an Isabelle
  \<open>string\<close>, a list of 8-bit characters read as the code points below 256. Among these the
  decimal digits, which is what \<^verbatim>\<open>\d\<close> matches, are \<open>0\<close> to \<open>9\<close>.

  A Python \<^verbatim>\<open>float\<close> is a finite number, modelled as the real number it denotes, or one
  of the infinities, or not a number. The conversion \<^verbatim>\<open>float(s)\<close> of a decimal text rounds
  the exact decimal value to the nearest double, to \<^verbatim>\<open>inf\<close> when it is too large; the
  rounding is the parameter \<open>rnd\<close> of type \<open>real \<Rightarrow> pyfloat\<close>, about which nothing is assumed,
  so every theorem below holds whatever the rounding is. The delays of \<^verbatim>\<open>time.sleep\<close> are
  real numbers, and the arithmetic on them is exact.
\<close>

datatype pyfloat = Finite real | PosInf | NegInf | NaN

text \<open>
  The comparison \<^verbatim>\<open><=\<close> of two floats, or of a float and an integer: false when one side
  is not a number.
\<close>

fun float_le :: "pyfloat \<Rightarrow> pyfloat \<Rightarrow> bool" where
  "float_le NaN y = False"
| "float_le x NaN = False"
| "float_le NegInf y = True"
| "float_le x PosInf = True"
| "float_le (Finite a) (Finite b) = (a \<le> b)"
| "float_le PosInf y = False"
| "float_le x NegInf = False"

text \<open>The truth value of a float in a condition: every float but zero is true.\<close>

definition truthy :: "pyfloat \<Rightarrow> bool" where
  "truthy x = (x \<noteq> Finite 0)"

definition is_digit :: "char \<Rightarrow> bool" where
  "is_digit c = (c \<in> set ''0123456789'')"

definition digit_val :: "char \<Rightarrow> nat" where
  "digit_val c = of_char c - 48"

text \<open>The value of a text of digits, read left to right in base ten.\<close>

definition digits_val :: "string \<Rightarrow> nat" where
  "digits_val ds = foldl (\<lambda>n c. 10 * n + digit_val c) 0 ds"

text \<open>
  \<^verbatim>\<open>float(s)\<close>, for the texts \<^verbatim>\<open>parse_price\<close> passes to it: texts of digits and dots.
  Such a text is accepted when it has a digit and at most one dot (\<^verbatim>\<open>12\<close>, \<^verbatim>\<open>12.\<close>,
  \<^verbatim>\<open>12.5\<close>, \<^verbatim>\<open>.5\<close>); \<open>None\<close> is Python's \<^verbatim>\<open>ValueError\<close>. Signs, exponents,
  underscores and the like never reach \<^verbatim>\<open>float\<close> here, and the model refuses them.
\<close>

definition py_float :: "(real \<Rightarrow> pyfloat) \<Rightarrow> string \<Rightarrow> pyfloat option" where
  "py_float rnd s =
     (let ip = takeWhile is_digit s; rest = dropWhile is_digit s in
      case rest of
        [] \<Rightarrow> if ip = [] then None else Some (rnd (real (digits_val ip)))
      | c # fp \<Rightarrow>
          if c = CHR ''.'' \<and> list_all is_digit fp \<and> (ip \<noteq> [] \<or> fp \<noteq> [])
          then Some (rnd (real (digits_val (ip @ fp)) / 10 ^ length fp))
          else None)"

section \<open>Regular expressions, as \<^verbatim>\<open>re.search\<close> reads them\<close>

text \<open>
  The fragment of Python's regular expressions that \<^verbatim>\<open>parse_price\<close> uses: \<^verbatim>\<open>\d\<close>, a
  literal character, sequence, and the greedy \<^verbatim>\<open>?\<close> and \<^verbatim>\<open>*\<close>; \<^verbatim>\<open>r+\<close> is \<^verbatim>\<open>rr*\<close> and
  \<^verbatim>\<open>r{3}\<close> is \<^verbatim>\<open>rrr\<close>.
\<close>

datatype rx = Digit | Chr char | Seq rx rx | Opt rx | Star rx

definition Plus :: "rx \<Rightarrow> rx" where
  "Plus r = Seq r (Star r)"

definition Times3 :: "rx \<Rightarrow> rx" where
  "Times3 r = Seq r (Seq r r)"

text \<open>
  \<open>rems r s\<close> lists what is left of \<open>s\<close> after each way of matching \<open>r\<close> at its start, in
  the order a backtracking matcher tries them: a greedy operator tries one more repetition
  before it tries to stop. An iteration of \<open>Star\<close> that consumes nothing is not repeated.
\<close>

fun rems :: "rx \<Rightarrow> string \<Rightarrow> string list" where
  "rems Digit s = (case s of [] \<Rightarrow> [] | c # cs \<Rightarrow> if is_digit c then [cs] else [])"
| "rems (Chr a) s = (case s of [] \<Rightarrow> [] | c # cs \<Rightarrow> if c = a then [cs] else [])"
| "rems (Seq r1 r2) s = concat (map (\<lambda>t. rems r2 t) (rems r1 s))"
| "rems (Opt r) s = rems r s @ [s]"
| "rems (Star r) s =
     concat (map (\<lambda>t. rems (Star r) t) (filter (\<lambda>t. length t < length s) (rems r s))) @ [s]"

text \<open>
  \<^verbatim>\<open>re.search(pattern, s)\<close>: the first match at the leftmost position that has one. The
  result is the matched text (every pattern below is one group, so it is \<^verbatim>\<open>match.group(1)\<close>);
  \<open>None\<close> is no match.
\<close>

fun re_search :: "rx \<Rightarrow> string \<Rightarrow> string option" where
  "re_search r [] = (case rems r [] of [] \<Rightarrow> None | t # _ \<Rightarrow> Some [])"
| "re_search r (c # cs) =
     (case rems r (c # cs) of
        [] \<Rightarrow> re_search r cs
      | t # _ \<Rightarrow> Some (take (length (c # cs) - length t) (c # cs)))"

section \<open>\<^verbatim>\<open>parse_price\<close> and \<^verbatim>\<open>validate_price\<close>\<close>

text \<open>
  \<^verbatim>\<open>cleaned = re.sub(r'[^\d.,\-]', '', price_text)\<close>: only digits, dots, commas and
  minus signs are kept.
\<close>

definition kept :: "char \<Rightarrow> bool" where
  "kept c = (is_digit c \<or> c = CHR ''.'' \<or> c = CHR '','' \<or> c = CHR ''-'')"

definition cleaned :: "string \<Rightarrow> string" where
  "cleaned price_text = filter kept price_text"

text \<open>
  The three patterns, in the order of the list \<^verbatim>\<open>price_patterns\<close>:
  \<^verbatim>\<open>(\d+(?:,\d{3})*\.?\d*)\<close>, \<^verbatim>\<open>(\d+\.?\d*)\<close> and \<^verbatim>\<open>(\d+,\d+)\<close>.
\<close>

definition thousands_group :: rx where
  "thousands_group = Seq (Chr (CHR '','')) (Times3 Digit)"

definition standard_format :: rx where
  "standard_format =
     Seq (Plus Digit)
       (Seq (Star thousands_group) (Seq (Opt (Chr (CHR ''.''))) (Star Digit)))"

definition simple_format :: rx where
  "simple_format = Seq (Plus Digit) (Seq (Opt (Chr (CHR ''.''))) (Star Digit))"

definition european_format :: rx where
  "european_format = Seq (Plus Digit) (Seq (Chr (CHR '','')) (Plus Digit))"

definition price_patterns :: "rx list" where
  "price_patterns = [standard_format, simple_format, european_format]"

text \<open>
  The loop over the patterns: the first pattern that matches and whose match, with its
  commas removed, \<^verbatim>\<open>float\<close> accepts gives the price; a \<^verbatim>\<open>ValueError\<close> moves on to the next
  pattern.
\<close>

fun try_patterns :: "(real \<Rightarrow> pyfloat) \<Rightarrow> rx list \<Rightarrow> string \<Rightarrow> pyfloat option" where
  "try_patterns rnd [] cl = None"
| "try_patterns rnd (pattern # patterns) cl =
     (case re_search pattern cl of
        None \<Rightarrow> try_patterns rnd patterns cl
      | Some m \<Rightarrow>
          (case py_float rnd (filter (\<lambda>c. c \<noteq> CHR '','') m) of
             Some price \<Rightarrow> Some price
           | None \<Rightarrow> try_patterns rnd patterns cl))"

text \<open>\<^verbatim>\<open>parse_price\<close> with the list of patterns as a parameter, and as the program has it.\<close>

definition parse_price_with :: "rx list \<Rightarrow> (real \<Rightarrow> pyfloat) \<Rightarrow> string \<Rightarrow> pyfloat option" where
  "parse_price_with patterns rnd price_text =
     (if price_text = [] then None else try_patterns rnd patterns (cleaned price_text))"

definition parse_price :: "(real \<Rightarrow> pyfloat) \<Rightarrow> string \<Rightarrow> pyfloat option" where
  "parse_price rnd price_text = parse_price_with price_patterns rnd price_text"

text \<open>
  \<^verbatim>\<open>return 0.01 <= price <= 50000\<close>. The literal \<^verbatim>\<open>0.01\<close> is the double next above
  \<open>1/100\<close>, and no double lies between the two, so on doubles the comparison is the one
  with \<open>1/100\<close>; \<^verbatim>\<open>50000\<close> is an integer, compared exactly.
\<close>

definition validate_price :: "pyfloat \<Rightarrow> bool" where
  "validate_price price = (float_le (Finite (1 / 100)) price \<and> float_le price (Finite 50000))"

section \<open>The page and the bot check\<close>

text \<open>
  \<^verbatim>\<open>str.strip()\<close> removes the white space at both ends; below code point 256 the
  white-space characters are 9 to 13, 28 to 32, 133 and 160.
\<close>

definition is_space :: "char \<Rightarrow> bool" where
  "is_space c = (of_char c \<in> {9, 10, 11, 12, 13, 28, 29, 30, 31, 32, 133, 160 :: nat})"

definition strip :: "string \<Rightarrow> string" where
  "strip s = rev (dropWhile is_space (rev (dropWhile is_space s)))"

text \<open>
  \<^verbatim>\<open>str.lower()\<close>: below code point 256 the upper-case letters are \<open>A\<close> to \<open>Z\<close> and the
  Latin-1 letters 192 to 222 without 215; the lower-case letter is 32 further.
\<close>

definition is_upper :: "char \<Rightarrow> bool" where
  "is_upper c =
     (let n = of_char c :: nat in
      (65 \<le> n \<and> n \<le> 90) \<or> (192 \<le> n \<and> n \<le> 214) \<or> (216 \<le> n \<and> n \<le> 222))"

definition lower_char :: "char \<Rightarrow> char" where
  "lower_char c = (if is_upper c then char_of (of_char c + 32 :: nat) else c)"

definition lower :: "string \<Rightarrow> string" where
  "lower s = map lower_char s"

text \<open>\<^verbatim>\<open>needle in haystack\<close> on texts.\<close>

fun starts_with :: "string \<Rightarrow> string \<Rightarrow> bool" where
  "starts_with [] s = True"
| "starts_with (a # as) [] = False"
| "starts_with (a # as) (c # cs) = (a = c \<and> starts_with as cs)"

fun contains :: "string \<Rightarrow> string \<Rightarrow> bool" where
  "contains needle [] = (needle = [])"
| "contains needle (c # cs) = (starts_with needle (c # cs) \<or> contains needle cs)"

definition bot_indicators :: "string list" where
  "bot_indicators =
     [''robot check'', ''blocked'', ''captcha'', ''unusual traffic'',
      ''automated queries'', ''sorry, we just need to make sure you're not a robot'',
      ''enter the characters you see below'', ''type the characters you see in this image'']"

text \<open>
  The bot check of \<^verbatim>\<open>get_price\<close>, on \<^verbatim>\<open>response.text\<close>:
  \<^verbatim>\<open>response_text = response.text.lower()\<close> and
  \<^verbatim>\<open>any(indicator in response_text for indicator in bot_indicators)\<close>.
\<close>

definition bot_detected :: "string \<Rightarrow> bool" where
  "bot_detected body =
     list_ex (\<lambda>indicator. contains indicator (lower body)) bot_indicators"

text \<open>
  What \<^verbatim>\<open>soup.select(selector)\<close> gives for a selector: it raises, or it gives the matching
  elements, each modelled by its \<^verbatim>\<open>get_text()\<close>. A response has its status code, its
  \<^verbatim>\<open>text\<close> and the parsed page.
\<close>

datatype select_result = SelectError | Elements "string list"

record response =
  status_code :: int
  text_body :: string
  soup_select :: "string \<Rightarrow> select_result"

text \<open>\<^verbatim>\<open>response.raise_for_status()\<close> raises for the status codes 400 to 599.\<close>

definition raises_for_status :: "response \<Rightarrow> bool" where
  "raises_for_status r = (400 \<le> status_code r \<and> status_code r < 600)"

definition price_selectors :: "string list" where
  "price_selectors =
     [''span.a-offscreen'',
      ''span#priceblock_dealprice'',
      ''span#priceblock_ourprice'',
      ''span.a-price-whole'',
      ''span.a-price.a-text-price.a-size-medium.apexPriceToPay'',
      ''span.a-price-range'',
      ''.a-price .a-offscreen'',
      ''#corePrice_feature_div .a-price .a-offscreen'',
      ''#apex_desktop .a-price .a-offscreen'',
      ''.a-price-to-pay .a-offscreen'',
      ''#priceblock_pactprice'',
      ''.a-price.a-text-price.a-size-medium.apexPriceToPay .a-offscreen'']"

section \<open>\<^verbatim>\<open>get_price\<close>\<close>

text \<open>
  What a run does besides returning: it sleeps, it sends requests (numbered by the attempt)
  and it queries the page with selectors.
\<close>

datatype event = Sleep real | Request nat | Select string

text \<open>
  The loop over the elements a selector gave: the first element wins whose stripped text
  parses to a price that is truthy and valid. (\<^verbatim>\<open>if price_element:\<close> holds for every
  element: a tag is truthy.)
\<close>

fun try_elements :: "(real \<Rightarrow> pyfloat) \<Rightarrow> string list \<Rightarrow> pyfloat option" where
  "try_elements rnd [] = None"
| "try_elements rnd (price_element # price_elements) =
     (case parse_price rnd (strip price_element) of
        None \<Rightarrow> try_elements rnd price_elements
      | Some price \<Rightarrow>
          if truthy price \<and> validate_price price then Some price
          else try_elements rnd price_elements)"

text \<open>
  The body of the loop over the selectors, for one selector: \<^verbatim>\<open>soup.select(selector)\<close> and
  the loop over its elements; an exception is caught and leaves the selector without a price.
\<close>

definition try_selector ::
  "(real \<Rightarrow> pyfloat) \<Rightarrow> (string \<Rightarrow> select_result) \<Rightarrow> string \<Rightarrow> pyfloat option" where
  "try_selector rnd soup selector =
     (case soup selector of
        SelectError \<Rightarrow> None
      | Elements price_elements \<Rightarrow> try_elements rnd price_elements)"

text \<open>
  The loop over the selectors: the first price found is returned at once. The second
  component lists the queries made.
\<close>

fun try_selectors ::
  "(real \<Rightarrow> pyfloat) \<Rightarrow> (string \<Rightarrow> select_result) \<Rightarrow> string list \<Rightarrow> pyfloat option \<times> event list"
where
  "try_selectors rnd soup [] = (None, [])"
| "try_selectors rnd soup (selector # selectors) =
     (case try_selector rnd soup selector of
        Some price \<Rightarrow> (Some price, [Select selector])
      | None \<Rightarrow>
          (case try_selectors rnd soup selectors of
             (result, queries) \<Rightarrow> (result, Select selector # queries)))"

text \<open>
  The outcome of \<^verbatim>\<open>self.session.get(url, timeout=20, allow_redirects=True)\<close>: one of the
  exceptions the loop catches, or a response. The headers that \<^verbatim>\<open>setup_session\<close> draws
  and the referrer are part of the request. A response that passes the bot check and whose
  parsing then raises goes the way of \<open>OtherException\<close>. The world of a run gives the
  outcome of the request of each attempt and the two random numbers an attempt may draw:
  \<^verbatim>\<open>random.uniform(-0.5, 0.5)\<close> and \<^verbatim>\<open>random.uniform(10, 20)\<close>. Log messages are not
  modelled.
\<close>

datatype fetch_result = Timeout | RequestException | OtherException | Response response

record world =
  fetch :: "string \<Rightarrow> nat \<Rightarrow> fetch_result"
  jitter :: "nat \<Rightarrow> real"
  bot_delay :: "nat \<Rightarrow> real"

text \<open>
  The delay at the start of an attempt:
  \<^verbatim>\<open>if attempt > 0: base_delay = 2 + (attempt * 1.5); delay = max(1, base_delay + jitter)\<close>.
\<close>

definition backoff :: "world \<Rightarrow> nat \<Rightarrow> event list" where
  "backoff w attempt =
     (if attempt > 0 then [Sleep (max 1 (2 + real attempt * 1.5 + jitter w attempt))] else [])"

text \<open>
  The body of \<^verbatim>\<open>for attempt in range(max_retries)\<close>, over the attempts that are left. An
  exception, a bot check that fires and a page without a price all go on to the next attempt;
  \<open>None\<close> is the \<^verbatim>\<open>return None\<close> after the loop.
\<close>

fun attempts ::
  "(real \<Rightarrow> pyfloat) \<Rightarrow> world \<Rightarrow> string \<Rightarrow> int \<Rightarrow> nat list \<Rightarrow> pyfloat option \<times> event list"
where
  "attempts rnd w url max_retries [] = (None, [])"
| "attempts rnd w url max_retries (attempt # rest) =
     (let started = backoff w attempt @ [Request attempt];
          next_attempt = (\<lambda>events.
            case attempts rnd w url max_retries rest of
              (result, later) \<Rightarrow> (result, events @ later))
      in case fetch w url attempt of
           Timeout \<Rightarrow> next_attempt started
         | RequestException \<Rightarrow> next_attempt started
         | OtherException \<Rightarrow> next_attempt started
         | Response r \<Rightarrow>
             if raises_for_status r then next_attempt started
             else if bot_detected (text_body r) then
               next_attempt
                 (started @
                  (if int attempt < max_retries - 1 then [Sleep (bot_delay w attempt)] else []))
             else
               (case try_selectors rnd (soup_select r) price_selectors of
                  (Some price, queries) \<Rightarrow> (Some price, started @ queries)
                | (None, queries) \<Rightarrow> next_attempt (started @ queries)))"

definition get_price ::
  "(real \<Rightarrow> pyfloat) \<Rightarrow> world \<Rightarrow> string \<Rightarrow> int \<Rightarrow> pyfloat option \<times> event list" where
  "get_price rnd w url max_retries = attempts rnd w url max_retries [0..<nat max_retries]"

text \<open>
  The three ways an attempt ends without a price: the request raises (a timeout, another
  request exception, an error status, or any other exception), the bot check fires, or no
  selector gives a valid price.
\<close>

definition request_fails :: "fetch_result \<Rightarrow> bool" where
  "request_fails res = (case res of Response r \<Rightarrow> raises_for_status r | _ \<Rightarrow> True)"

definition blocked :: "fetch_result \<Rightarrow> bool" where
  "blocked res =
     (case res of
        Response r \<Rightarrow> \<not> raises_for_status r \<and> bot_detected (text_body r)
      | _ \<Rightarrow> False)"

definition no_price_found :: "(real \<Rightarrow> pyfloat) \<Rightarrow> fetch_result \<Rightarrow> bool" where
  "no_price_found rnd res =
     (case res of
        Response r \<Rightarrow>
          \<not> raises_for_status r \<and> \<not> bot_detected (text_body r) \<and>
          fst (try_selectors rnd (soup_select r) price_selectors) = None
      | _ \<Rightarrow> False)"

section \<open>\<^verbatim>\<open>update_price_history\<close>\<close>

text \<open>
  \<^verbatim>\<open>self.price_history\<close> maps a product name to its list of entries;
  \<^verbatim>\<open>datetime.now().isoformat()\<close> is the parameter \<open>now\<close>.
\<close>

record entry =
  entry_price :: pyfloat
  entry_timestamp :: string

definition update_price_history ::
  "(string \<rightharpoonup> entry list) \<Rightarrow> string \<Rightarrow> pyfloat \<Rightarrow> string \<Rightarrow> (string \<rightharpoonup> entry list)" where
  "update_price_history price_history product_name price now =
     (let current = (case price_history product_name of None \<Rightarrow> [] | Some entries \<Rightarrow> entries);
          appended = current @ [\<lparr>entry_price = price, entry_timestamp = now\<rparr>]
      in if length appended > 100
         then price_history(product_name \<mapsto> drop (length appended - 100) appended)
         else price_history(product_name \<mapsto> appended))"

section \<open>Functions used in the proofs\<close>

text \<open>
  The first match of \<open>standard_format\<close> at the start of a text, written out: the digits,
  then the groups of a comma and three digits, then a dot if there is one, then the digits
  after it. \<open>standard_rest\<close> is what the match leaves and \<open>standard_match\<close> what it takes.
\<close>

fun skip_groups :: "string \<Rightarrow> string" where
  "skip_groups (x # a # b # c # t) =
     (if x = CHR '','' \<and> is_digit a \<and> is_digit b \<and> is_digit c then skip_groups t
      else x # a # b # c # t)"
| "skip_groups s = s"

fun take_groups :: "string \<Rightarrow> string" where
  "take_groups (x # a # b # c # t) =
     (if x = CHR '','' \<and> is_digit a \<and> is_digit b \<and> is_digit c
      then x # a # b # c # take_groups t else [])"
| "take_groups s = []"

definition skip_dot :: "string \<Rightarrow> string" where
  "skip_dot s = (case s of [] \<Rightarrow> [] | c # cs \<Rightarrow> if c = CHR ''.'' then cs else c # cs)"

definition take_dot :: "string \<Rightarrow> string" where
  "take_dot s = (case s of [] \<Rightarrow> [] | c # cs \<Rightarrow> if c = CHR ''.'' then [c] else [])"

definition standard_rest :: "string \<Rightarrow> string" where
  "standard_rest s = dropWhile is_digit (skip_dot (skip_groups (dropWhile is_digit s)))"

definition standard_match :: "string \<Rightarrow> string" where
  "standard_match s =
     (let r1 = dropWhile is_digit s; r2 = skip_groups r1; r3 = skip_dot r2 in
      takeWhile is_digit s @ take_groups r1 @ take_dot r2 @ takeWhile is_digit r3)"

text \<open>Groups of digits, each after a comma: \<open>grouped [''234'', ''567''] = '',234,567''\<close>.\<close>

definition grouped :: "string list \<Rightarrow> string" where
  "grouped gs = concat (map (\<lambda>g. CHR '','' # g) gs)"

text \<open>An attempt fails in one of the three ways.\<close>

definition fails :: "(real \<Rightarrow> pyfloat) \<Rightarrow> fetch_result \<Rightarrow> bool" where
  "fails rnd res = (request_fails res \<or> blocked res \<or> no_price_found rnd res)"

section \<open>Example pages and worlds\<close>

text \<open>
  A product page with one price, a page without a price, a page that shows a robot check,
  and the product page with the text \<^verbatim>\<open>please enter the characters you see in this image\<close>
  as its body; all with status 200.
\<close>

definition product_page :: response where
  "product_page =
     \<lparr>status_code = 200,
      text_body = ''<html><title>Amazon.com: Widget</title><span class=a-offscreen>$799.99</span></html>'',
      soup_select = (\<lambda>selector.
        if selector = ''span.a-offscreen'' then Elements [''$799.99''] else Elements [])\<rparr>"

definition empty_page :: response where
  "empty_page =
     \<lparr>status_code = 200,
      text_body = ''<html><title>Amazon.com: Widget</title>Currently unavailable.</html>'',
      soup_select = (\<lambda>selector. Elements [])\<rparr>"

definition captcha_page :: response where
  "captcha_page =
     \<lparr>status_code = 200,
      text_body = ''<html><title>Robot Check</title>Enter the characters you see below</html>'',
      soup_select = (\<lambda>selector. Elements [])\<rparr>"

definition prompt_page :: response where
  "prompt_page = product_page
     \<lparr>text_body := ''please enter the characters you see in this image''\<rparr>"

text \<open>A page on which the first and the third selector both give a price.\<close>

definition two_prices :: "string \<Rightarrow> select_result" where
  "two_prices selector =
     (if selector = ''span.a-offscreen'' then Elements [''$19.99'']
      else if selector = ''span#priceblock_ourprice'' then Elements [''$24.99'']
      else Elements [])"

text \<open>
  A world in which every request has the same outcome, and one in which the first request
  times out and the later ones give the product page.
\<close>

definition always :: "fetch_result \<Rightarrow> world" where
  "always res = \<lparr>fetch = (\<lambda>url attempt. res), jitter = (\<lambda>attempt. 1 / 4),
     bot_delay = (\<lambda>attempt. 15)\<rparr>"

definition second_time :: world where
  "second_time = \<lparr>fetch = (\<lambda>url attempt. if attempt = 0 then Timeout else Response product_page),
     jitter = (\<lambda>attempt. 1 / 4), bot_delay = (\<lambda>attempt. 15)\<rparr>"

text \<open>
  A world in which the first request gives the robot check and the later ones the product
  page.
\<close>

definition blocked_first :: world where
  "blocked_first =
     \<lparr>fetch = (\<lambda>url attempt.
        if attempt = 0 then Response captcha_page else Response product_page),
      jitter = (\<lambda>attempt. 1 / 4), bot_delay = (\<lambda>attempt. 15)\<rparr>"

text \<open>A history in which one product has 100 entries.\<close>

definition full_history :: "string \<rightharpoonup> entry list" where
  "full_history =
     [''widget'' \<mapsto> replicate 100 \<lparr>entry_price = Finite 5, entry_timestamp = ''2025-01-01T09:00:00''\<rparr>]"

section \<open>The matcher on the standard format\<close>

declare rems.simps(5) [simp del]

lemma rems_Star:
  "rems (Star r) s =
     concat (map (rems (Star r)) (filter (\<lambda>t. length t < length s) (rems r s))) @ [s]"
  by (subst rems.simps(5)) (rule refl)

lemma not_digit_comma [simp]: "\<not> is_digit (CHR '','')"
  by (simp add: is_digit_def)

lemma not_digit_dot [simp]: "\<not> is_digit (CHR ''.'')"
  by (simp add: is_digit_def)

lemma rems_Star_nonempty [simp]: "rems (Star r) s \<noteq> []"
  by (subst rems_Star) simp

lemma rems_Star_none: "rems r s = [] \<Longrightarrow> rems (Star r) s = [s]"
  by (subst rems_Star) simp

lemma rems_Star_one:
  "rems r s = [t] \<Longrightarrow> length t < length s \<Longrightarrow> rems (Star r) s = rems (Star r) t @ [s]"
  by (subst rems_Star) simp

lemma rems_Star_Digit: "\<exists>ts. rems (Star Digit) s = dropWhile is_digit s # ts"
proof (induction s)
  case Nil
  show ?case by (simp add: rems_Star_none)
next
  case (Cons c cs)
  then obtain ts where ts: "rems (Star Digit) cs = dropWhile is_digit cs # ts" by blast
  show ?case
  proof (cases "is_digit c")
    case True
    then have "rems (Star Digit) (c # cs) = rems (Star Digit) cs @ [c # cs]"
      by (intro rems_Star_one) simp_all
    then show ?thesis using ts True by simp
  next
    case False
    then show ?thesis by (simp add: rems_Star_none)
  qed
qed

lemma rems_Plus_Digit:
  "rems (Plus Digit) s =
     (case s of [] \<Rightarrow> [] | c # cs \<Rightarrow> if is_digit c then rems (Star Digit) cs else [])"
  by (cases s) (simp_all add: Plus_def)

lemma rems_thousands_group:
  "rems thousands_group s =
     (case s of
        x # a # b # c # t \<Rightarrow>
          if x = CHR '','' \<and> is_digit a \<and> is_digit b \<and> is_digit c then [t] else []
      | _ \<Rightarrow> [])"
  by (simp add: thousands_group_def Times3_def split: list.splits)

lemma rems_Star_group: "\<exists>ts. rems (Star thousands_group) s = skip_groups s # ts"
proof (induction s rule: skip_groups.induct)
  case (1 x a b c t)
  show ?case
  proof (cases "x = CHR '','' \<and> is_digit a \<and> is_digit b \<and> is_digit c")
    case True
    from True 1 obtain ts
      where ts: "rems (Star thousands_group) t = skip_groups t # ts"
      by blast
    have "rems thousands_group (x # a # b # c # t) = [t]"
      using True by (simp add: rems_thousands_group)
    then have "rems (Star thousands_group) (x # a # b # c # t) =
        rems (Star thousands_group) t @ [x # a # b # c # t]"
      by (intro rems_Star_one) simp_all
    then show ?thesis using True ts by simp
  next
    case False
    have e: "rems thousands_group (x # a # b # c # t) = []"
      using False by (auto simp: rems_thousands_group)
    have k: "skip_groups (x # a # b # c # t) = x # a # b # c # t"
      using False by auto
    show ?thesis unfolding rems_Star_none [OF e] k by blast
  qed
qed (simp_all add: rems_thousands_group rems_Star_none)

lemma rems_Opt_dot: "\<exists>ts. rems (Opt (Chr (CHR ''.''))) s = skip_dot s # ts"
  by (cases s) (simp_all add: skip_dot_def)

lemma rems_Seq_hd:
  assumes "rems r1 s = t # ts" and "rems r2 t = u # us"
  shows "\<exists>vs. rems (Seq r1 r2) s = u # vs"
  using assms by simp

lemma rems_Seq_Nil: "rems r1 s = [] \<Longrightarrow> rems (Seq r1 r2) s = []"
  by simp

lemma rems_standard_digit:
  assumes "is_digit c"
  shows "\<exists>ts. rems standard_format (c # cs) = standard_rest (c # cs) # ts"
proof -
  obtain t1 where 1: "rems (Plus Digit) (c # cs) = dropWhile is_digit cs # t1"
    using assms rems_Star_Digit [of cs] by (auto simp: rems_Plus_Digit)
  obtain t2 where 2: "rems (Star thousands_group) (dropWhile is_digit cs) =
      skip_groups (dropWhile is_digit cs) # t2"
    using rems_Star_group by blast
  obtain t3 where 3: "rems (Opt (Chr (CHR ''.''))) (skip_groups (dropWhile is_digit cs)) =
      skip_dot (skip_groups (dropWhile is_digit cs)) # t3"
    using rems_Opt_dot by blast
  obtain t4 where 4: "rems (Star Digit) (skip_dot (skip_groups (dropWhile is_digit cs))) =
      standard_rest (c # cs) # t4"
    using rems_Star_Digit [of "skip_dot (skip_groups (dropWhile is_digit cs))"] assms
    by (auto simp: standard_rest_def)
  from rems_Seq_hd [OF 3 4] obtain t5 where 5:
    "rems (Seq (Opt (Chr (CHR ''.''))) (Star Digit)) (skip_groups (dropWhile is_digit cs)) =
      standard_rest (c # cs) # t5" by blast
  from rems_Seq_hd [OF 2 5] obtain t6 where 6:
    "rems (Seq (Star thousands_group) (Seq (Opt (Chr (CHR ''.''))) (Star Digit)))
       (dropWhile is_digit cs) = standard_rest (c # cs) # t6" by blast
  from rems_Seq_hd [OF 1 6] show ?thesis
    unfolding standard_format_def by blast
qed

lemma rems_Plus_Digit_Nil: "\<not> is_digit c \<Longrightarrow> rems (Seq (Plus Digit) r) (c # cs) = []"
  by (intro rems_Seq_Nil) (simp add: rems_Plus_Digit)

lemma rems_Plus_Digit_empty: "rems (Seq (Plus Digit) r) [] = []"
  by (intro rems_Seq_Nil) (simp add: rems_Plus_Digit)

lemma take_skip_groups: "take_groups s @ skip_groups s = s"
  by (induction s rule: skip_groups.induct) auto

lemma take_skip_dot: "take_dot s @ skip_dot s = s"
  by (cases s) (simp_all add: take_dot_def skip_dot_def)

lemma standard_match_rest: "standard_match s @ standard_rest s = s"
proof -
  define r1 where "r1 = dropWhile is_digit s"
  define r2 where "r2 = skip_groups r1"
  define r3 where "r3 = skip_dot r2"
  have "takeWhile is_digit r3 @ dropWhile is_digit r3 = r3" by simp
  then have "take_dot r2 @ takeWhile is_digit r3 @ dropWhile is_digit r3 = r2"
    by (simp add: r3_def take_skip_dot)
  then have "take_groups r1 @ take_dot r2 @ takeWhile is_digit r3 @ dropWhile is_digit r3 = r1"
    by (simp add: r2_def take_skip_groups)
  then have "takeWhile is_digit s @ take_groups r1 @ take_dot r2 @ takeWhile is_digit r3 @
      dropWhile is_digit r3 = s"
    by (simp add: r1_def)
  then show ?thesis
    by (simp add: standard_match_def standard_rest_def r1_def r2_def r3_def Let_def)
qed

lemma take_length_diff: "m @ t = s \<Longrightarrow> take (length s - length t) s = m"
  by auto

lemma re_search_standard_digit:
  assumes "is_digit c"
  shows "re_search standard_format (c # cs) = Some (standard_match (c # cs))"
proof -
  obtain ts where "rems standard_format (c # cs) = standard_rest (c # cs) # ts"
    using rems_standard_digit [OF assms] by blast
  then have "re_search standard_format (c # cs) =
      Some (take (length (c # cs) - length (standard_rest (c # cs))) (c # cs))"
    by (simp del: rems.simps)
  then show ?thesis
    by (simp only: take_length_diff [OF standard_match_rest])
qed

lemma re_search_skip:
  "\<not> is_digit c \<Longrightarrow> re_search (Seq (Plus Digit) r) (c # cs) = re_search (Seq (Plus Digit) r) cs"
  using rems_Plus_Digit_Nil [of c r cs] by (simp del: rems.simps)

lemma re_search_empty: "re_search (Seq (Plus Digit) r) [] = None"
  using rems_Plus_Digit_empty [of r] by (simp del: rems.simps)

lemma re_search_no_digit:
  "\<forall>c \<in> set s. \<not> is_digit c \<Longrightarrow> re_search (Seq (Plus Digit) r) s = None"
proof (induction s)
  case Nil
  show ?case by (rule re_search_empty)
next
  case (Cons c cs)
  then show ?case by (simp add: re_search_skip del: re_search.simps)
qed

lemma re_search_standard:
  "re_search standard_format s =
     (case dropWhile (\<lambda>c. \<not> is_digit c) s of
        [] \<Rightarrow> None
      | c # cs \<Rightarrow> Some (standard_match (c # cs)))"
proof (induction s)
  case Nil
  show ?case using re_search_empty by (simp add: standard_format_def)
next
  case (Cons c cs)
  show ?case
  proof (cases "is_digit c")
    case True
    then show ?thesis by (simp add: re_search_standard_digit del: re_search.simps)
  next
    case False
    then have "re_search standard_format (c # cs) = re_search standard_format cs"
      unfolding standard_format_def by (rule re_search_skip)
    then show ?thesis using False Cons by (simp del: re_search.simps)
  qed
qed

section \<open>\<^verbatim>\<open>float\<close> on what the standard format matches\<close>

lemma digits_take_groups: "list_all is_digit (filter (\<lambda>c. c \<noteq> CHR '','') (take_groups s))"
  by (induction s rule: take_groups.induct) simp_all

lemma filter_commas_digits:
  "list_all is_digit ds \<Longrightarrow> filter (\<lambda>c. c \<noteq> CHR '','') ds = ds"
  by (induction ds) auto

lemma digits_takeWhile: "list_all is_digit (takeWhile is_digit s)"
  by (induction s) auto

lemma filter_commas_take_dot: "filter (\<lambda>c. c \<noteq> CHR '','') (take_dot s) = take_dot s"
  by (cases s) (simp_all add: take_dot_def)

lemma takeWhile_all: "list_all P xs \<Longrightarrow> takeWhile P xs = xs"
  by (induction xs) auto

lemma dropWhile_all: "list_all P xs \<Longrightarrow> dropWhile P xs = []"
  by (induction xs) auto

lemma py_float_digits:
  assumes "ds \<noteq> []" and "list_all is_digit ds"
  shows "py_float rnd ds = Some (rnd (real (digits_val ds)))"
  using assms by (simp add: py_float_def takeWhile_all dropWhile_all)

lemma py_float_point:
  assumes "list_all is_digit ds" and "list_all is_digit fs" and "ds \<noteq> [] \<or> fs \<noteq> []"
  shows "py_float rnd (ds @ CHR ''.'' # fs) =
     Some (rnd (real (digits_val (ds @ fs)) / 10 ^ length fs))"
proof -
  have "\<forall>x \<in> set ds. is_digit x" using assms(1) by (simp add: list_all_iff)
  then have "takeWhile is_digit (ds @ CHR ''.'' # fs) = ds"
    and "dropWhile is_digit (ds @ CHR ''.'' # fs) = CHR ''.'' # fs"
    by (simp_all add: takeWhile_append2 dropWhile_append2)
  then show ?thesis using assms by (simp add: py_float_def)
qed

lemma filter_commas_standard_match:
  "filter (\<lambda>c. c \<noteq> CHR '','') (standard_match s) =
     (takeWhile is_digit s @ filter (\<lambda>c. c \<noteq> CHR '','') (take_groups (dropWhile is_digit s))) @
     take_dot (skip_groups (dropWhile is_digit s)) @
     takeWhile is_digit (skip_dot (skip_groups (dropWhile is_digit s)))"
  by (simp add: standard_match_def Let_def filter_commas_digits digits_takeWhile
      filter_commas_take_dot)

lemma take_dot_cases: "take_dot s = [] \<or> take_dot s = [CHR ''.'']"
  by (cases s) (simp_all add: take_dot_def)

lemma py_float_standard_match:
  assumes "is_digit c"
  shows "\<exists>p. py_float rnd (filter (\<lambda>x. x \<noteq> CHR '','') (standard_match (c # cs))) = Some p"
proof -
  define ds where "ds = takeWhile is_digit (c # cs) @
      filter (\<lambda>c. c \<noteq> CHR '','') (take_groups (dropWhile is_digit (c # cs)))"
  define fs where "fs = takeWhile is_digit (skip_dot (skip_groups (dropWhile is_digit (c # cs))))"
  have ds: "list_all is_digit ds" "ds \<noteq> []"
    using assms by (simp_all add: ds_def digits_takeWhile digits_take_groups)
  have fs: "list_all is_digit fs"
    by (simp add: fs_def digits_takeWhile)
  have m: "filter (\<lambda>x. x \<noteq> CHR '','') (standard_match (c # cs)) =
      ds @ take_dot (skip_groups (dropWhile is_digit (c # cs))) @ fs"
    unfolding filter_commas_standard_match ds_def fs_def by simp
  from take_dot_cases [of "skip_groups (dropWhile is_digit (c # cs))"] show ?thesis
  proof
    assume "take_dot (skip_groups (dropWhile is_digit (c # cs))) = []"
    then have "filter (\<lambda>x. x \<noteq> CHR '','') (standard_match (c # cs)) = ds @ fs"
      using m by simp
    moreover have "py_float rnd (ds @ fs) = Some (rnd (real (digits_val (ds @ fs))))"
      using ds fs by (intro py_float_digits) simp_all
    ultimately show ?thesis by simp
  next
    assume "take_dot (skip_groups (dropWhile is_digit (c # cs))) = [CHR ''.'']"
    then have "filter (\<lambda>x. x \<noteq> CHR '','') (standard_match (c # cs)) = ds @ CHR ''.'' # fs"
      using m by simp
    moreover have "py_float rnd (ds @ CHR ''.'' # fs) =
        Some (rnd (real (digits_val (ds @ fs)) / 10 ^ length fs))"
      using ds fs by (intro py_float_point) simp_all
    ultimately show ?thesis by simp
  qed
qed

section \<open>The loop over the patterns\<close>

lemma dropWhile_digit_found:
  assumes "\<exists>c \<in> set s. is_digit c"
  shows "\<exists>c cs. dropWhile (\<lambda>c. \<not> is_digit c) s = c # cs \<and> is_digit c"
proof -
  have "dropWhile (\<lambda>c. \<not> is_digit c) s \<noteq> []"
    using assms by (simp add: dropWhile_eq_Nil_conv)
  then obtain c cs where e: "dropWhile (\<lambda>c. \<not> is_digit c) s = c # cs"
    by (cases "dropWhile (\<lambda>c. \<not> is_digit c) s") auto
  then have "is_digit c" using hd_dropWhile [of "\<lambda>c. \<not> is_digit c" s] by simp
  with e show ?thesis by blast
qed

lemma try_patterns_standard:
  assumes "\<exists>c \<in> set cl. is_digit c"
  shows "\<exists>p. try_patterns rnd (standard_format # patterns) cl = Some p \<and>
     try_patterns rnd [standard_format] cl = Some p"
proof -
  obtain c cs where e: "dropWhile (\<lambda>c. \<not> is_digit c) cl = c # cs" and d: "is_digit c"
    using dropWhile_digit_found [OF assms] by blast
  have s: "re_search standard_format cl = Some (standard_match (c # cs))"
    by (simp add: re_search_standard e)
  obtain p where "py_float rnd (filter (\<lambda>x. x \<noteq> CHR '','') (standard_match (c # cs))) = Some p"
    using py_float_standard_match [OF d] by blast
  then show ?thesis using s by simp
qed

lemma try_patterns_no_digit:
  assumes "\<forall>c \<in> set cl. \<not> is_digit c"
  shows "try_patterns rnd price_patterns cl = None"
proof -
  have "re_search standard_format cl = None" "re_search simple_format cl = None"
    "re_search european_format cl = None"
    unfolding standard_format_def simple_format_def european_format_def
    using assms by (simp_all only: re_search_no_digit)
  then show ?thesis by (simp add: price_patterns_def)
qed

lemma try_patterns_two_no_digit:
  assumes "\<forall>c \<in> set cl. \<not> is_digit c"
  shows "try_patterns rnd [standard_format, simple_format] cl = None"
proof -
  have "re_search standard_format cl = None" "re_search simple_format cl = None"
    unfolding standard_format_def simple_format_def
    using assms by (simp_all only: re_search_no_digit)
  then show ?thesis by simp
qed

lemma re_search_european_digit:
  assumes "re_search european_format cl \<noteq> None"
  shows "\<exists>c \<in> set cl. is_digit c"
proof (rule ccontr)
  assume "\<not> (\<exists>c \<in> set cl. is_digit c)"
  then have "\<forall>c \<in> set cl. \<not> is_digit c" by simp
  then have "re_search european_format cl = None"
    unfolding european_format_def by (rule re_search_no_digit)
  with assms show False by simp
qed

lemma kept_digit: "is_digit c \<Longrightarrow> kept c"
  by (simp add: kept_def)

lemma kept_comma: "kept (CHR '','')"
  by (simp add: kept_def)

lemma kept_dot: "kept (CHR ''.'')"
  by (simp add: kept_def)

lemma digit_not_comma: "is_digit c \<Longrightarrow> c \<noteq> CHR '',''"
  by auto

lemma digit_in_cleaned: "(\<exists>c \<in> set (cleaned s). is_digit c) \<longleftrightarrow> (\<exists>c \<in> set s. is_digit c)"
  using kept_digit by (auto simp: cleaned_def)

section \<open>Texts of the thousands-grouped form\<close>

lemma dropWhile_digits_then:
  "list_all is_digit ds \<Longrightarrow> \<not> is_digit y \<Longrightarrow> dropWhile is_digit (ds @ y # ys) = y # ys"
  by (induction ds) auto

lemma grouped_simps [simp]:
  "grouped [] = []" "grouped (g # gs) = CHR '','' # g @ grouped gs"
  by (simp_all add: grouped_def)

lemma group3:
  assumes "length g = 3" and "list_all is_digit g"
  shows "\<exists>a b c. g = [a, b, c] \<and> is_digit a \<and> is_digit b \<and> is_digit c"
proof -
  from assms(1) obtain a b c where "g = [a, b, c]"
    by (cases g; cases "tl g"; cases "tl (tl g)") auto
  with assms(2) show ?thesis by simp
qed

lemma skip_groups_grouped:
  assumes "\<forall>g \<in> set gs. length g = 3 \<and> list_all is_digit g"
  shows "skip_groups (grouped gs @ CHR ''.'' # t) = skip_groups (CHR ''.'' # t)"
  using assms
proof (induction gs)
  case Nil
  show ?case by simp
next
  case (Cons g gs)
  then obtain a b c where g: "g = [a, b, c]" "is_digit a" "is_digit b" "is_digit c"
    using group3 [of g] by auto
  from Cons have "skip_groups (grouped gs @ CHR ''.'' # t) = skip_groups (CHR ''.'' # t)"
    by simp
  then show ?case using g by simp
qed

lemma skip_groups_dot: "skip_groups (CHR ''.'' # t) = CHR ''.'' # t"
  by (cases t; cases "tl t"; cases "tl (tl t)") auto

lemma grouped_dot_start: "\<exists>y ys. grouped gs @ CHR ''.'' # t = y # ys \<and> \<not> is_digit y"
  by (cases gs) simp_all

lemma filter_commas_grouped:
  assumes "\<forall>g \<in> set gs. length g = 3 \<and> list_all is_digit g"
  shows "filter (\<lambda>c. c \<noteq> CHR '','') (grouped gs) = concat gs"
  using assms by (induction gs) (simp_all add: filter_commas_digits)

lemma digits_concat:
  assumes "\<forall>g \<in> set gs. length g = 3 \<and> list_all is_digit g"
  shows "list_all is_digit (concat gs)"
  using assms by (induction gs) simp_all

lemma kept_grouped:
  assumes "\<forall>g \<in> set gs. length g = 3 \<and> list_all is_digit g"
  shows "filter kept (grouped gs) = grouped gs"
  using assms
proof (induction gs)
  case Nil
  show ?case by simp
next
  case (Cons g gs)
  then have "list_all kept g" by (auto simp: list_all_iff kept_digit)
  then have "filter kept g = g" by (induction g) auto
  with Cons show ?case by (simp add: kept_comma)
qed

section \<open>Texts of the thousands-grouped form, parsed\<close>

lemma parse_price_grouped:
  assumes cur: "\<not> kept cur"
    and g0: "g0 \<noteq> []" "list_all is_digit g0"
    and gs: "\<forall>g \<in> set gs. length g = 3 \<and> list_all is_digit g"
    and d: "is_digit d1" "is_digit d2"
  shows "parse_price rnd (cur # g0 @ grouped gs @ CHR ''.'' # [d1, d2]) =
     Some (rnd (real (digits_val (g0 @ concat gs @ [d1, d2])) / 100))"
proof -
  define cl where "cl = g0 @ grouped gs @ CHR ''.'' # [d1, d2]"
  have "filter kept g0 = g0"
    using g0(2) by (induction g0) (auto simp: kept_digit)
  then have cl: "cleaned (cur # g0 @ grouped gs @ CHR ''.'' # [d1, d2]) = cl"
    using cur d by (simp add: cleaned_def cl_def kept_grouped [OF gs] kept_digit kept_dot)
  obtain y ys where y: "grouped gs @ CHR ''.'' # [d1, d2] = y # ys" "\<not> is_digit y"
    using grouped_dot_start by blast
  have r1: "dropWhile is_digit cl = grouped gs @ CHR ''.'' # [d1, d2]"
    unfolding cl_def y(1) using g0(2) y(2) by (rule dropWhile_digits_then)
  have r2: "skip_groups (grouped gs @ CHR ''.'' # [d1, d2]) = CHR ''.'' # [d1, d2]"
    by (simp only: skip_groups_grouped [OF gs] skip_groups_dot)
  have rest: "standard_rest cl = []"
    using d by (simp add: standard_rest_def r1 r2 skip_dot_def)
  have m: "standard_match cl = cl"
    using standard_match_rest [of cl] rest by simp
  obtain a as where a: "g0 = a # as" "is_digit a"
    using g0 by (cases g0) auto
  have "re_search standard_format cl = Some cl"
    using re_search_standard_digit [OF a(2), of "as @ grouped gs @ CHR ''.'' # [d1, d2]"] m
    by (simp add: cl_def a(1))
  moreover have "filter (\<lambda>c. c \<noteq> CHR '','') cl = (g0 @ concat gs) @ CHR ''.'' # [d1, d2]"
    using g0(2) d
    by (simp add: cl_def filter_commas_digits filter_commas_grouped [OF gs] digit_not_comma)
  moreover have "py_float rnd ((g0 @ concat gs) @ CHR ''.'' # [d1, d2]) =
      Some (rnd (real (digits_val ((g0 @ concat gs) @ [d1, d2])) / 10 ^ length [d1, d2]))"
    using g0 d digits_concat [OF gs] by (intro py_float_point) simp_all
  ultimately have "try_patterns rnd price_patterns cl =
      Some (rnd (real (digits_val (g0 @ concat gs @ [d1, d2])) / 100))"
    by (simp add: price_patterns_def)
  then show ?thesis
    unfolding parse_price_def parse_price_with_def cl by simp
qed

lemma parse_799: "parse_price Finite ''$799.99'' = Some (Finite (79999 / 100))"
proof -
  have "\<not> kept (CHR ''$'')" by (simp add: kept_def is_digit_def)
  moreover have "list_all is_digit ''799''" by (simp add: is_digit_def)
  moreover have "\<forall>g \<in> set []. length g = 3 \<and> list_all is_digit g" by simp
  moreover have "is_digit (CHR ''9'')" by (simp add: is_digit_def)
  ultimately have "parse_price Finite (CHR ''$'' # ''799'' @ grouped [] @ CHR ''.'' # ''99'') =
      Some (Finite (real (digits_val (''799'' @ concat [] @ ''99'')) / 100))"
    by (intro parse_price_grouped) simp_all
  then show ?thesis by (simp add: digits_val_def digit_val_def)
qed

lemma parse_1999: "parse_price Finite ''$19.99'' = Some (Finite (1999 / 100))"
proof -
  have "\<not> kept (CHR ''$'')" by (simp add: kept_def is_digit_def)
  moreover have "list_all is_digit ''19''" by (simp add: is_digit_def)
  moreover have "\<forall>g \<in> set []. length g = 3 \<and> list_all is_digit g" by simp
  moreover have "is_digit (CHR ''9'')" by (simp add: is_digit_def)
  ultimately have "parse_price Finite (CHR ''$'' # ''19'' @ grouped [] @ CHR ''.'' # ''99'') =
      Some (Finite (real (digits_val (''19'' @ concat [] @ ''99'')) / 100))"
    by (intro parse_price_grouped) simp_all
  then show ?thesis by (simp add: digits_val_def digit_val_def)
qed

lemma parse_2499: "parse_price Finite ''$24.99'' = Some (Finite (2499 / 100))"
proof -
  have "\<not> kept (CHR ''$'')" by (simp add: kept_def is_digit_def)
  moreover have "list_all is_digit ''24''" by (simp add: is_digit_def)
  moreover have "\<forall>g \<in> set []. length g = 3 \<and> list_all is_digit g" by simp
  moreover have "is_digit (CHR ''9'')" by (simp add: is_digit_def)
  ultimately have "parse_price Finite (CHR ''$'' # ''24'' @ grouped [] @ CHR ''.'' # ''99'') =
      Some (Finite (real (digits_val (''24'' @ concat [] @ ''99'')) / 100))"
    by (intro parse_price_grouped) simp_all
  then show ?thesis by (simp add: digits_val_def digit_val_def)
qed

lemma european_example: "re_search european_format ''1234,56'' = Some ''1234,56''"
  by (simp add: european_format_def Plus_def is_digit_def rems.simps(5))

section \<open>The loops over elements, selectors and attempts\<close>

lemma validate_price_finite:
  "validate_price v \<longleftrightarrow> (\<exists>r. v = Finite r \<and> 1 / 100 \<le> r \<and> r \<le> 50000)"
  by (cases v) (simp_all add: validate_price_def)

lemma try_elements_valid:
  "try_elements rnd es = Some p \<Longrightarrow> validate_price p \<and> truthy p"
  by (induction es) (auto split: option.splits if_splits)

lemma try_selector_valid: "try_selector rnd soup sel = Some p \<Longrightarrow> validate_price p"
  by (auto simp: try_selector_def try_elements_valid split: select_result.splits)

lemma try_selectors_valid: "fst (try_selectors rnd soup sels) = Some p \<Longrightarrow> validate_price p"
  by (induction sels) (auto simp: try_selector_valid split: option.splits prod.splits)

lemma try_selectors_no_request: "Request n \<notin> set (snd (try_selectors rnd soup sels))"
  by (induction sels) (auto split: option.splits prod.splits)

lemma try_selectors_first:
  assumes "i < length sels" and "try_selector rnd soup (sels ! i) = Some p"
    and "\<forall>k < i. try_selector rnd soup (sels ! k) = None"
  shows "try_selectors rnd soup sels = (Some p, map Select (take (Suc i) sels))"
  using assms
proof (induction sels arbitrary: i)
  case Nil
  then show ?case by simp
next
  case (Cons sel sels)
  show ?case
  proof (cases i)
    case 0
    with Cons.prems show ?thesis by simp
  next
    case (Suc j)
    from Cons.prems Suc have "try_selector rnd soup sel = None" by auto
    moreover have "try_selectors rnd soup sels = (Some p, map Select (take (Suc j) sels))"
    proof (rule Cons.IH)
      show "j < length sels" using Cons.prems Suc by simp
      show "try_selector rnd soup (sels ! j) = Some p" using Cons.prems Suc by simp
      show "\<forall>k < j. try_selector rnd soup (sels ! k) = None"
        using Cons.prems(3) Suc by auto
    qed
    ultimately show ?thesis using Suc by simp
  qed
qed

lemma try_selectors_least:
  assumes "i < length sels" and "try_selector rnd soup (sels ! i) = Some p"
  shows "\<exists>k \<le> i. \<exists>q. try_selector rnd soup (sels ! k) = Some q \<and>
     try_selectors rnd soup sels = (Some q, map Select (take (Suc k) sels))"
proof -
  define k where "k = (LEAST k. try_selector rnd soup (sels ! k) \<noteq> None)"
  have i: "try_selector rnd soup (sels ! i) \<noteq> None" using assms(2) by simp
  have le: "k \<le> i" unfolding k_def using i by (rule Least_le)
  have "try_selector rnd soup (sels ! k) \<noteq> None" unfolding k_def using i by (rule LeastI)
  then obtain q where q: "try_selector rnd soup (sels ! k) = Some q" by blast
  have none: "\<forall>m < k. try_selector rnd soup (sels ! m) = None"
  proof (intro allI impI)
    fix m
    assume "m < k"
    then have "\<not> try_selector rnd soup (sels ! m) \<noteq> None"
      unfolding k_def by (rule not_less_Least)
    then show "try_selector rnd soup (sels ! m) = None" by simp
  qed
  have "k < length sels" using le assms(1) by simp
  then have "try_selectors rnd soup sels = (Some q, map Select (take (Suc k) sels))"
    using q none by (rule try_selectors_first)
  with le q show ?thesis by blast
qed

text \<open>
  One attempt: it fails and the loop goes on with the later attempts, or it returns a valid
  price. Either way its events are the backoff, the request, and events that are no
  requests.
\<close>

lemma attempts_step:
  "\<exists>extras. (\<forall>n. Request n \<notin> set extras) \<and>
     (if fails rnd (fetch w url a)
      then attempts rnd w url mr (a # rest) =
             (fst (attempts rnd w url mr rest),
              backoff w a @ Request a # extras @ snd (attempts rnd w url mr rest))
      else \<exists>p. validate_price p \<and>
             attempts rnd w url mr (a # rest) = (Some p, backoff w a @ Request a # extras))"
proof (cases "fetch w url a")
  case Timeout
  then show ?thesis
    by (intro exI [of _ "[]"]) (simp add: fails_def request_fails_def split: prod.splits)
next
  case RequestException
  then show ?thesis
    by (intro exI [of _ "[]"]) (simp add: fails_def request_fails_def split: prod.splits)
next
  case OtherException
  then show ?thesis
    by (intro exI [of _ "[]"]) (simp add: fails_def request_fails_def split: prod.splits)
next
  case (Response r)
  show ?thesis
  proof (cases "raises_for_status r")
    case True
    with Response show ?thesis
      by (intro exI [of _ "[]"]) (simp add: fails_def request_fails_def split: prod.splits)
  next
    case False
    note ok = this
    show ?thesis
    proof (cases "bot_detected (text_body r)")
      case True
      with Response ok show ?thesis
        by (intro exI [of _ "if int a < mr - 1 then [Sleep (bot_delay w a)] else []"])
          (simp add: fails_def blocked_def split: prod.splits)
    next
      case False
      obtain res qs where t: "try_selectors rnd (soup_select r) price_selectors = (res, qs)"
        by (cases "try_selectors rnd (soup_select r) price_selectors")
      have q: "\<forall>n. Request n \<notin> set qs"
        using try_selectors_no_request [of _ rnd "soup_select r" price_selectors] t by simp
      show ?thesis
      proof (cases res)
        case None
        with Response ok False t q show ?thesis
          by (intro exI [of _ qs])
            (simp add: fails_def no_price_found_def split: prod.splits)
      next
        case (Some p)
        then have "validate_price p"
          using try_selectors_valid [of rnd "soup_select r" price_selectors p] t by simp
        with Some Response ok False t q show ?thesis
          by (intro exI [of _ qs])
            (simp add: fails_def no_price_found_def request_fails_def blocked_def)
      qed
    qed
  qed
qed

declare attempts.simps(2) [simp del]

lemma attempts_valid:
  "fst (attempts rnd w url mr as) = Some p \<Longrightarrow> validate_price p"
proof (induction as)
  case Nil
  then show ?case by simp
next
  case (Cons a as)
  obtain extras where e:
    "if fails rnd (fetch w url a)
      then attempts rnd w url mr (a # as) =
             (fst (attempts rnd w url mr as),
              backoff w a @ Request a # extras @ snd (attempts rnd w url mr as))
      else \<exists>p. validate_price p \<and>
             attempts rnd w url mr (a # as) = (Some p, backoff w a @ Request a # extras)"
    using attempts_step [of rnd w url a mr as] by blast
  show ?case
  proof (cases "fails rnd (fetch w url a)")
    case True
    with e Cons show ?thesis by simp
  next
    case False
    with e Cons.prems show ?thesis by auto
  qed
qed

lemma attempts_None_iff:
  "fst (attempts rnd w url mr as) = None \<longleftrightarrow> (\<forall>a \<in> set as. fails rnd (fetch w url a))"
proof (induction as)
  case Nil
  show ?case by simp
next
  case (Cons a as)
  obtain extras where e:
    "if fails rnd (fetch w url a)
      then attempts rnd w url mr (a # as) =
             (fst (attempts rnd w url mr as),
              backoff w a @ Request a # extras @ snd (attempts rnd w url mr as))
      else \<exists>p. validate_price p \<and>
             attempts rnd w url mr (a # as) = (Some p, backoff w a @ Request a # extras)"
    using attempts_step [of rnd w url a mr as] by blast
  show ?case
  proof (cases "fails rnd (fetch w url a)")
    case True
    with e Cons show ?thesis by simp
  next
    case False
    with e show ?thesis by auto
  qed
qed

lemma attempts_backoff:
  "Request i \<in> set (snd (attempts rnd w url mr as)) \<Longrightarrow>
     \<exists>pre post. snd (attempts rnd w url mr as) = pre @ backoff w i @ Request i # post"
proof (induction as)
  case Nil
  then show ?case by simp
next
  case (Cons a as)
  obtain extras where x: "\<forall>n. Request n \<notin> set extras" and e:
    "if fails rnd (fetch w url a)
      then attempts rnd w url mr (a # as) =
             (fst (attempts rnd w url mr as),
              backoff w a @ Request a # extras @ snd (attempts rnd w url mr as))
      else \<exists>p. validate_price p \<and>
             attempts rnd w url mr (a # as) = (Some p, backoff w a @ Request a # extras)"
    using attempts_step [of rnd w url a mr as] by blast
  have b: "Request i \<notin> set (backoff w a)" by (simp add: backoff_def)
  show ?case
  proof (cases "i = a")
    case True
    from e have "\<exists>post. snd (attempts rnd w url mr (a # as)) = backoff w a @ Request a # post"
      by (cases "fails rnd (fetch w url a)") auto
    then obtain post where "snd (attempts rnd w url mr (a # as)) = [] @ backoff w i @ Request i # post"
      using True by auto
    then show ?thesis by blast
  next
    case False
    show ?thesis
    proof (cases "fails rnd (fetch w url a)")
      case True
      with e have s: "snd (attempts rnd w url mr (a # as)) =
          backoff w a @ Request a # extras @ snd (attempts rnd w url mr as)" by simp
      with Cons.prems False x b have "Request i \<in> set (snd (attempts rnd w url mr as))"
        by auto
      then obtain pre post where
        "snd (attempts rnd w url mr as) = pre @ backoff w i @ Request i # post"
        using Cons.IH by blast
      with s have "snd (attempts rnd w url mr (a # as)) =
          (backoff w a @ Request a # extras @ pre) @ backoff w i @ Request i # post" by simp
      then show ?thesis by blast
    next
      case no: False
      with e have "snd (attempts rnd w url mr (a # as)) = backoff w a @ Request a # extras"
        by auto
      with Cons.prems False x b show ?thesis by auto
    qed
  qed
qed

lemma attempts_first:
  "\<exists>later. snd (attempts rnd w url mr (0 # as)) = Request 0 # later"
proof -
  obtain extras where e:
    "if fails rnd (fetch w url 0)
      then attempts rnd w url mr (0 # as) =
             (fst (attempts rnd w url mr as),
              backoff w 0 @ Request 0 # extras @ snd (attempts rnd w url mr as))
      else \<exists>p. validate_price p \<and>
             attempts rnd w url mr (0 # as) = (Some p, backoff w 0 @ Request 0 # extras)"
    using attempts_step [of rnd w url 0 mr as] by blast
  then show ?thesis by (cases "fails rnd (fetch w url 0)") (auto simp: backoff_def)
qed

text \<open>
  An attempt whose response passes the status check and holds a bot indicator: the loop
  goes on to the next attempt, and the attempt's events are the backoff, the request and
  the extra sleep when attempts remain.
\<close>

lemma attempts_blocked:
  assumes "fetch w url a = Response r" and "\<not> raises_for_status r"
    and "bot_detected (text_body r)"
  shows "attempts rnd w url mr (a # rest) =
     (fst (attempts rnd w url mr rest),
      backoff w a @ Request a #
      (if int a < mr - 1 then [Sleep (bot_delay w a)] else []) @
      snd (attempts rnd w url mr rest))"
  using assms by (simp add: attempts.simps(2) split: prod.splits)

lemma attempts_requests:
  "Request n \<in> set (snd (attempts rnd w url mr as)) \<Longrightarrow> n \<in> set as"
proof (induction as)
  case Nil
  then show ?case by simp
next
  case (Cons a as)
  obtain extras where x: "\<forall>n. Request n \<notin> set extras" and e:
    "if fails rnd (fetch w url a)
      then attempts rnd w url mr (a # as) =
             (fst (attempts rnd w url mr as),
              backoff w a @ Request a # extras @ snd (attempts rnd w url mr as))
      else \<exists>p. validate_price p \<and>
             attempts rnd w url mr (a # as) = (Some p, backoff w a @ Request a # extras)"
    using attempts_step [of rnd w url a mr as] by blast
  have b: "Request n \<notin> set (backoff w a)" by (simp add: backoff_def)
  show ?case
  proof (cases "fails rnd (fetch w url a)")
    case True
    with e have "snd (attempts rnd w url mr (a # as)) =
        backoff w a @ Request a # extras @ snd (attempts rnd w url mr as)" by simp
    with Cons x b show ?thesis by auto
  next
    case False
    with e have "snd (attempts rnd w url mr (a # as)) = backoff w a @ Request a # extras"
      by auto
    with Cons.prems x b show ?thesis by auto
  qed
qed

lemma attempts_append:
  "attempts rnd w url mr (xs @ ys) =
     (case attempts rnd w url mr xs of
        (Some p, ev) \<Rightarrow> (Some p, ev)
      | (None, ev) \<Rightarrow>
          (fst (attempts rnd w url mr ys), ev @ snd (attempts rnd w url mr ys)))"
proof (induction xs)
  case Nil
  show ?case by simp
next
  case (Cons a xs)
  show ?case
    unfolding append_Cons attempts.simps(2) [of _ _ _ _ a] Cons Let_def
    by (simp split: fetch_result.splits prod.splits option.splits)
qed

lemma get_price_blocked_attempt:
  assumes f: "fetch w url a = Response r" and s: "\<not> raises_for_status r"
    and b: "bot_detected (text_body r)"
    and m: "Request a \<in> set (snd (get_price rnd w url mr))"
  shows "\<exists>pre. get_price rnd w url mr =
     (fst (attempts rnd w url mr [Suc a..<nat mr]),
      pre @ backoff w a @ Request a #
      (if int a < mr - 1 then [Sleep (bot_delay w a)] else []) @
      snd (attempts rnd w url mr [Suc a..<nat mr]))"
proof -
  from m have "a \<in> set [0..<nat mr]"
    unfolding get_price_def by (rule attempts_requests)
  then have lt: "a < nat mr" by simp
  have "[0..<a + (nat mr - a)] = [0..<a] @ [a..<a + (nat mr - a)]"
    by (rule upt_add_eq_append) simp
  then have "[0..<nat mr] = [0..<a] @ [a..<nat mr]"
    using lt by simp
  then have u: "[0..<nat mr] = [0..<a] @ a # [Suc a..<nat mr]"
    using lt by (simp add: upt_conv_Cons)
  obtain res ev where p: "attempts rnd w url mr [0..<a] = (res, ev)"
    by (cases "attempts rnd w url mr [0..<a]")
  have "res = None"
  proof (cases res)
    case None
    then show ?thesis .
  next
    case (Some q)
    then have "get_price rnd w url mr = (Some q, ev)"
      unfolding get_price_def u attempts_append p by simp
    with m have "Request a \<in> set (snd (attempts rnd w url mr [0..<a]))"
      using p by simp
    then have "a \<in> set [0..<a]" by (rule attempts_requests)
    then show ?thesis by simp
  qed
  then have "get_price rnd w url mr =
      (fst (attempts rnd w url mr (a # [Suc a..<nat mr])),
       ev @ snd (attempts rnd w url mr (a # [Suc a..<nat mr])))"
    unfolding get_price_def u attempts_append p by simp
  then have "get_price rnd w url mr =
     (fst (attempts rnd w url mr [Suc a..<nat mr]),
      ev @ backoff w a @ Request a #
      (if int a < mr - 1 then [Sleep (bot_delay w a)] else []) @
      snd (attempts rnd w url mr [Suc a..<nat mr]))"
    unfolding attempts_blocked [OF f s b] by simp
  then show ?thesis by blast
qed

section \<open>The example pages and worlds, evaluated\<close>

lemma strip_799: "strip ''$799.99'' = ''$799.99''"
  by (simp add: strip_def is_space_def)

lemma select_product: "try_selector Finite (soup_select product_page) ''span.a-offscreen'' = Some (Finite (79999 / 100))"
  by (simp add: try_selector_def product_page_def strip_799 parse_799 validate_price_def
      truthy_def)

lemma selectors_product:
  "try_selectors Finite (soup_select product_page) price_selectors =
     (Some (Finite (79999 / 100)), [Select ''span.a-offscreen''])"
  using select_product by (simp add: price_selectors_def)

lemma selectors_empty:
  "fst (try_selectors Finite (\<lambda>selector. Elements []) price_selectors) = None"
  by (simp add: price_selectors_def try_selector_def)

lemma product_not_detected: "\<not> bot_detected (text_body product_page)"
  unfolding bot_detected_def product_page_def
  by code_simp

lemma captcha_detected: "bot_detected (text_body captcha_page)"
  unfolding bot_detected_def captcha_page_def
  by code_simp

lemma prompt_not_detected: "\<not> bot_detected ''please enter the characters you see in this image''"
  unfolding bot_detected_def
  by code_simp

lemma fails_Timeout: "fails rnd Timeout"
  by (simp add: fails_def request_fails_def)

lemma status_200: "status_code r = 200 \<Longrightarrow> \<not> raises_for_status r"
  by (simp add: raises_for_status_def)

lemma fails_captcha: "fails rnd (Response captcha_page)"
  using captcha_detected status_200 [of captcha_page]
  by (simp add: fails_def blocked_def captcha_page_def)

lemma fails_empty: "fails Finite (Response empty_page)"
proof -
  have "\<not> bot_detected (text_body empty_page)"
    unfolding bot_detected_def empty_page_def by code_simp
  moreover have "\<not> raises_for_status empty_page"
    by (simp add: raises_for_status_def empty_page_def)
  moreover have "fst (try_selectors Finite (soup_select empty_page) price_selectors) = None"
    using selectors_empty by (simp add: empty_page_def)
  ultimately show ?thesis by (simp add: fails_def no_price_found_def)
qed

lemma attempt_product:
  assumes "fetch w url a = Response product_page"
  shows "attempts Finite w url mr (a # rest) =
     (Some (Finite (79999 / 100)), backoff w a @ [Request a, Select ''span.a-offscreen''])"
  using assms product_not_detected status_200 [of product_page] selectors_product
  by (simp add: attempts.simps(2) product_page_def)

lemma second_time_run:
  "snd (get_price Finite second_time ''https://www.amazon.com/dp/B0'' 3) =
     [Request 0, Sleep (15 / 4), Request 1, Select ''span.a-offscreen'']"
proof -
  have u: "[0..<nat 3] = 0 # [1, 2]" by (simp add: upt_conv_Cons)
  have 1: "attempts Finite second_time ''https://www.amazon.com/dp/B0'' 3 [1, 2] =
      (Some (Finite (79999 / 100)), backoff second_time 1 @ [Request 1, Select ''span.a-offscreen''])"
    by (rule attempt_product) (simp add: second_time_def)
  have "attempts Finite second_time ''https://www.amazon.com/dp/B0'' 3 (0 # [1, 2]) =
      (Some (Finite (79999 / 100)),
       Request 0 # backoff second_time 1 @ [Request 1, Select ''span.a-offscreen''])"
    unfolding attempts.simps(2) [of _ _ _ _ 0] 1
    by (simp add: second_time_def backoff_def)
  then show ?thesis
    unfolding get_price_def u by (simp add: backoff_def second_time_def)
qed

lemma bot_detected_indicator:
  "indicator \<in> set bot_indicators \<Longrightarrow> contains indicator (lower body) \<Longrightarrow> bot_detected body"
  by (auto simp: bot_detected_def list_ex_iff)

lemma drop_full: "length xs = 100 \<Longrightarrow> drop (length (xs @ [x]) - 100) (xs @ [x]) = tl xs @ [x]"
  by (cases xs) simp_all

section \<open>The claims\<close>

text \<open>
  Claim C1. Whatever the URL, the retry budget and the world, a price that \<^verbatim>\<open>get_price\<close>
  returns lies between 0.01 and 50000: it passes \<^verbatim>\<open>validate_price\<close>.
\<close>

theorem get_price_validated:
  "fst (get_price rnd w url max_retries) = Some price \<Longrightarrow>
     validate_price price \<and> (\<exists>r. price = Finite r \<and> 1 / 100 \<le> r \<and> r \<le> 50000)"
  unfolding get_price_def using attempts_valid [of rnd w url max_retries _ price]
  by (simp add: validate_price_finite)

theorem get_price_validated_witness:
  "fst (get_price Finite (always (Response product_page)) ''https://www.amazon.com/dp/B0'' 3) =
     Some (Finite (79999 / 100)) \<and>
   validate_price (Finite (79999 / 100))"
proof -
  have "[0..<nat 3] = 0 # [1, 2]" by (simp add: upt_conv_Cons)
  then have r: "fst (get_price Finite (always (Response product_page))
      ''https://www.amazon.com/dp/B0'' 3) = Some (Finite (79999 / 100))"
    by (simp add: get_price_def attempt_product always_def)
  from get_price_validated [OF r] r show ?thesis by simp
qed

text \<open>
  Claim C2, as stated, asks that the returned failure tells apart a run without a price,
  a run blocked to the end and a run with network errors to the end. It does not: with a
  budget of three attempts, the world that always times out, the world that always shows
  the robot check and the world that always gives the page without a price all return
  \<open>None\<close>.
\<close>

theorem failure_not_distinguished:
  "fst (get_price Finite (always Timeout) ''https://www.amazon.com/dp/B0'' 3) = None \<and>
   fst (get_price Finite (always (Response captcha_page)) ''https://www.amazon.com/dp/B0'' 3) = None \<and>
   fst (get_price Finite (always (Response empty_page)) ''https://www.amazon.com/dp/B0'' 3) = None"
  unfolding get_price_def attempts_None_iff
  by (simp add: always_def fails_Timeout fails_captcha fails_empty)

text \<open>
  Claim C2, amended. \<^verbatim>\<open>get_price\<close> returns the one value \<open>None\<close> on failure, whatever
  the reason: it returns \<open>None\<close> exactly when every attempt of the budget ends without a
  price, by a failed request, by the bot check, or because no selector gave a valid price.
\<close>

theorem failure_is_None:
  "fst (get_price rnd w url max_retries) = None \<longleftrightarrow>
     (\<forall>attempt. int attempt < max_retries \<longrightarrow>
        request_fails (fetch w url attempt) \<or> blocked (fetch w url attempt) \<or>
        no_price_found rnd (fetch w url attempt))"
proof -
  have "(\<forall>a \<in> set [0..<nat max_retries]. fails rnd (fetch w url a)) \<longleftrightarrow>
      (\<forall>a. int a < max_retries \<longrightarrow> fails rnd (fetch w url a))"
    by (simp add: Ball_def zless_nat_eq_int_zless)
  then show ?thesis
    unfolding get_price_def attempts_None_iff fails_def .
qed

theorem failure_is_None_witness:
  "request_fails (fetch (always Timeout) ''https://www.amazon.com/dp/B0'' 0) \<and>
   fst (get_price Finite (always Timeout) ''https://www.amazon.com/dp/B0'' 3) = None \<and>
   fst (get_price Finite (always (Response product_page)) ''https://www.amazon.com/dp/B0'' 3) \<noteq> None"
proof -
  have 1: "request_fails (fetch (always Timeout) ''https://www.amazon.com/dp/B0'' 0)"
    by (simp add: always_def request_fails_def)
  have "\<forall>attempt. request_fails (fetch (always Timeout) ''https://www.amazon.com/dp/B0'' attempt)"
    by (simp add: always_def request_fails_def)
  then have 2: "fst (get_price Finite (always Timeout) ''https://www.amazon.com/dp/B0'' 3) = None"
    by (simp only: failure_is_None) simp
  have "\<not> fails Finite (Response product_page)"
    using product_not_detected status_200 [of product_page] selectors_product
    by (simp add: fails_def request_fails_def blocked_def no_price_found_def product_page_def)
  then have "\<not> (\<forall>attempt. int attempt < 3 \<longrightarrow>
      request_fails (fetch (always (Response product_page)) ''https://www.amazon.com/dp/B0'' attempt) \<or>
      blocked (fetch (always (Response product_page)) ''https://www.amazon.com/dp/B0'' attempt) \<or>
      no_price_found Finite (fetch (always (Response product_page)) ''https://www.amazon.com/dp/B0'' attempt))"
    by (auto simp: always_def fails_def intro: exI [of _ 0])
  then have 3: "fst (get_price Finite (always (Response product_page))
      ''https://www.amazon.com/dp/B0'' 3) \<noteq> None"
    using failure_is_None [of Finite "always (Response product_page)"
      "''https://www.amazon.com/dp/B0''" 3] by blast
  from 1 2 3 show ?thesis by blast
qed

text \<open>
  Claim C3. A text of the form of \<^verbatim>\<open>$1,234.56\<close>: a currency symbol (a character that the
  cleaning removes), digits, groups of a comma and three digits, a dot and two digits.
  \<^verbatim>\<open>parse_price\<close> returns the number that the digits denote, with the dot before the last
  two: what is left when the symbol and the commas are dropped, as the float nearest to it.
\<close>

theorem parse_price_thousands_grouped:
  assumes cur: "\<not> kept cur"
    and g0: "g0 \<noteq> []" "list_all is_digit g0"
    and gs: "\<forall>g \<in> set gs. length g = 3 \<and> list_all is_digit g"
    and d: "is_digit d1" "is_digit d2"
  shows "parse_price rnd (cur # g0 @ grouped gs @ CHR ''.'' # [d1, d2]) =
     Some (rnd (real (digits_val (g0 @ concat gs @ [d1, d2])) / 100))"
  using assms by (rule parse_price_grouped)

theorem parse_price_thousands_grouped_witness:
  "parse_price Finite ''$1,234.56'' = Some (Finite (123456 / 100))"
proof -
  have "\<not> kept (CHR ''$'')" by (simp add: kept_def is_digit_def)
  moreover have "list_all is_digit ''1''" by (simp add: is_digit_def)
  moreover have "\<forall>g \<in> set [''234'']. length g = 3 \<and> list_all is_digit g"
    by (simp add: is_digit_def)
  moreover have "is_digit (CHR ''5'')" "is_digit (CHR ''6'')" by (simp_all add: is_digit_def)
  ultimately have "parse_price Finite (CHR ''$'' # ''1'' @ grouped [''234''] @ CHR ''.'' # ''56'') =
      Some (Finite (real (digits_val (''1'' @ concat [''234''] @ ''56'')) / 100))"
    by (intro parse_price_thousands_grouped) simp_all
  then show ?thesis by (simp add: digits_val_def digit_val_def)
qed

text \<open>
  Claim C4. When two selectors of the list both give a valid price, the loop over the
  selectors returns the price of the first selector of the list that gives one, which is the
  earlier of the two or a selector before it, and it queries no selector after that one.
  So when the two are the selectors that give a price (none before the earlier one does),
  the price of the earlier one is returned. In particular, when the first and the third
  selector of \<open>price_selectors\<close> both give a valid price, the price of the first is returned
  after one query.
\<close>

theorem earlier_selector_wins:
  "(i < j \<and> j < length selectors \<and>
    try_selector rnd soup (selectors ! i) = Some price_i \<and>
    try_selector rnd soup (selectors ! j) = Some price_j \<longrightarrow>
      (\<exists>k \<le> i. \<exists>price_k.
         try_selector rnd soup (selectors ! k) = Some price_k \<and>
         try_selectors rnd soup selectors =
           (Some price_k, map Select (take (Suc k) selectors))) \<and>
      ((\<forall>k < i. try_selector rnd soup (selectors ! k) = None) \<longrightarrow>
         try_selectors rnd soup selectors =
           (Some price_i, map Select (take (Suc i) selectors)))) \<and>
   (try_selector rnd soup ''span.a-offscreen'' = Some price_1 \<and>
    try_selector rnd soup ''span#priceblock_ourprice'' = Some price_3 \<longrightarrow>
      try_selectors rnd soup price_selectors = (Some price_1, [Select ''span.a-offscreen'']))"
proof (intro conjI impI)
  assume a: "i < j \<and> j < length selectors \<and>
    try_selector rnd soup (selectors ! i) = Some price_i \<and>
    try_selector rnd soup (selectors ! j) = Some price_j"
  then have "i < length selectors" and "try_selector rnd soup (selectors ! i) = Some price_i"
    by simp_all
  then show "\<exists>k \<le> i. \<exists>price_k.
      try_selector rnd soup (selectors ! k) = Some price_k \<and>
      try_selectors rnd soup selectors = (Some price_k, map Select (take (Suc k) selectors))"
    by (rule try_selectors_least)
next
  assume a: "i < j \<and> j < length selectors \<and>
    try_selector rnd soup (selectors ! i) = Some price_i \<and>
    try_selector rnd soup (selectors ! j) = Some price_j"
    and n: "\<forall>k < i. try_selector rnd soup (selectors ! k) = None"
  from a have "i < length selectors" and "try_selector rnd soup (selectors ! i) = Some price_i"
    by simp_all
  then show "try_selectors rnd soup selectors =
      (Some price_i, map Select (take (Suc i) selectors))"
    using n by (rule try_selectors_first)
next
  assume "try_selector rnd soup ''span.a-offscreen'' = Some price_1 \<and>
    try_selector rnd soup ''span#priceblock_ourprice'' = Some price_3"
  then show "try_selectors rnd soup price_selectors = (Some price_1, [Select ''span.a-offscreen''])"
    by (simp add: price_selectors_def)
qed

theorem earlier_selector_wins_witness:
  "try_selector Finite two_prices (price_selectors ! 0) = Some (Finite (1999 / 100)) \<and>
   try_selector Finite two_prices (price_selectors ! 2) = Some (Finite (2499 / 100)) \<and>
   try_selectors Finite two_prices price_selectors =
     (Some (Finite (1999 / 100)), [Select ''span.a-offscreen''])"
proof -
  have s: "strip ''$19.99'' = ''$19.99''" "strip ''$24.99'' = ''$24.99''"
    by (simp_all add: strip_def is_space_def)
  have 1: "try_selector Finite two_prices (price_selectors ! 0) = Some (Finite (1999 / 100))"
    by (simp add: price_selectors_def try_selector_def two_prices_def s parse_1999
        validate_price_def truthy_def)
  have 3: "try_selector Finite two_prices (price_selectors ! 2) = Some (Finite (2499 / 100))"
    by (simp add: price_selectors_def try_selector_def two_prices_def s parse_2499
        validate_price_def truthy_def)
  have h: "(0 :: nat) < 2 \<and> 2 < length price_selectors \<and>
      try_selector Finite two_prices (price_selectors ! 0) = Some (Finite (1999 / 100)) \<and>
      try_selector Finite two_prices (price_selectors ! 2) = Some (Finite (2499 / 100))"
    using 1 3 by (simp add: price_selectors_def)
  have n: "\<forall>k < (0 :: nat). try_selector Finite two_prices (price_selectors ! k) = None"
    by simp
  note t = earlier_selector_wins [of 0 2 price_selectors Finite two_prices
      "Finite (1999 / 100)" "Finite (2499 / 100)"]
  from t h n have "try_selectors Finite two_prices price_selectors =
      (Some (Finite (1999 / 100)), map Select (take (Suc 0) price_selectors))"
    by blast
  then have "try_selectors Finite two_prices price_selectors =
      (Some (Finite (1999 / 100)), [Select ''span.a-offscreen''])"
    by (simp add: price_selectors_def)
  with 1 3 show ?thesis by blast
qed

text \<open>
  Claim C5. \<^verbatim>\<open>validate_price\<close> holds exactly for the floats that are numbers from 0.01
  to 50000: it is false at 0, true at 0.01, true at 50000 and false at 50000.01, and it is
  false at the infinities and at what is not a number.
\<close>

theorem validate_price_bounds:
  "(validate_price v \<longleftrightarrow> (\<exists>r. v = Finite r \<and> 1 / 100 \<le> r \<and> r \<le> 50000)) \<and>
   \<not> validate_price (Finite 0) \<and> validate_price (Finite (1 / 100)) \<and>
   validate_price (Finite 50000) \<and> \<not> validate_price (Finite (5000001 / 100)) \<and>
   \<not> validate_price PosInf \<and> \<not> validate_price NegInf \<and> \<not> validate_price NaN"
proof -
  have "validate_price v \<longleftrightarrow> (\<exists>r. v = Finite r \<and> 1 / 100 \<le> r \<and> r \<le> 50000)"
    by (cases v) (simp_all add: validate_price_def)
  then show ?thesis by (simp add: validate_price_def)
qed

text \<open>
  Claim C6. The third pattern, \<open>european_format\<close>, is never the one that gives the result:
  \<^verbatim>\<open>parse_price\<close> is equal to itself with the third pattern removed, and whenever the third
  pattern has a match in the cleaned text, the first pattern alone already gives the result.
\<close>

theorem european_format_unreachable:
  "parse_price rnd s = parse_price_with [standard_format, simple_format] rnd s \<and>
   (re_search european_format (cleaned s) \<noteq> None \<longrightarrow>
      (\<exists>p. parse_price_with [standard_format] rnd s = Some p \<and> parse_price rnd s = Some p))"
proof (cases "\<exists>c \<in> set (cleaned s). is_digit c")
  case True
  then have n: "s \<noteq> []" by (auto simp: cleaned_def)
  from try_patterns_standard [OF True, of rnd "[simple_format, european_format]"]
  obtain p where p: "try_patterns rnd price_patterns (cleaned s) = Some p"
    "try_patterns rnd [standard_format] (cleaned s) = Some p"
    unfolding price_patterns_def by (elim exE conjE)
  from try_patterns_standard [OF True, of rnd "[simple_format]"]
  obtain q where q: "try_patterns rnd [standard_format, simple_format] (cleaned s) = Some q"
    "try_patterns rnd [standard_format] (cleaned s) = Some q"
    by (elim exE conjE)
  from p q have "q = p" by simp
  with p q n show ?thesis
    by (simp add: parse_price_def parse_price_with_def)
next
  case False
  then have a: "\<forall>c \<in> set (cleaned s). \<not> is_digit c" by simp
  have 1: "try_patterns rnd price_patterns (cleaned s) = None"
    using a by (rule try_patterns_no_digit)
  have 2: "try_patterns rnd [standard_format, simple_format] (cleaned s) = None"
    using a by (rule try_patterns_two_no_digit)
  have 3: "re_search european_format (cleaned s) = None"
    using re_search_european_digit [of "cleaned s"] False by blast
  show ?thesis
    unfolding parse_price_def parse_price_with_def 1 2 3 by simp
qed

theorem european_format_unreachable_witness:
  "re_search european_format (cleaned ''EUR 1234,56'') = Some ''1234,56'' \<and>
   parse_price Finite ''EUR 1234,56'' =
     parse_price_with [standard_format, simple_format] Finite ''EUR 1234,56'' \<and>
   (\<exists>p. parse_price_with [standard_format] Finite ''EUR 1234,56'' = Some p \<and>
        parse_price Finite ''EUR 1234,56'' = Some p)"
proof -
  have c: "cleaned ''EUR 1234,56'' = ''1234,56''"
    by (simp add: cleaned_def kept_def is_digit_def)
  have e: "re_search european_format (cleaned ''EUR 1234,56'') = Some ''1234,56''"
    unfolding c by (rule european_example)
  then have "re_search european_format (cleaned ''EUR 1234,56'') \<noteq> None" by simp
  with european_format_unreachable [of Finite "''EUR 1234,56''"] e show ?thesis by blast
qed

text \<open>
  Claim C7, as stated, asks that a body with the text
  \<^verbatim>\<open>please enter the characters you see in this image\<close> is taken for a block page. That
  text contains none of the eight indicators: the bot check does not fire on it, and the
  run goes on to read the price from the page.
\<close>

theorem captcha_prompt_not_detected:
  "\<not> bot_detected (text_body prompt_page) \<and> status_code prompt_page = 200 \<and>
   get_price Finite (always (Response prompt_page)) ''https://www.amazon.com/dp/B0'' 3 =
     (Some (Finite (79999 / 100)), [Request 0, Select ''span.a-offscreen''])"
proof -
  have n: "\<not> bot_detected (text_body prompt_page)"
    using prompt_not_detected by (simp add: prompt_page_def)
  have s: "status_code prompt_page = 200" by (simp add: prompt_page_def product_page_def)
  have u: "[0..<nat 3] = 0 # [1, 2]" by (simp add: upt_conv_Cons)
  have "try_selectors Finite (soup_select prompt_page) price_selectors =
     (Some (Finite (79999 / 100)), [Select ''span.a-offscreen''])"
    using selectors_product by (simp add: prompt_page_def)
  then have "get_price Finite (always (Response prompt_page)) ''https://www.amazon.com/dp/B0'' 3 =
     (Some (Finite (79999 / 100)), [Request 0, Select ''span.a-offscreen''])"
    unfolding get_price_def u using n status_200 [OF s]
    by (simp add: attempts.simps(2) always_def backoff_def)
  with n s show ?thesis by blast
qed

text \<open>
  Claim C7, amended. A body that contains, in lower case, one of the eight texts of
  \<open>bot_indicators\<close> makes the bot check fire also when the status is 200, in whatever
  attempt and with whatever budget: the attempt is blocked, no selector is queried in it,
  and the loop goes on with the later attempts, after the extra sleep when attempts remain.
  So in a run that makes this attempt, its request is followed by that sleep, if any, and
  then by the events of the later attempts, whose result is the result of the run.
\<close>

theorem indicator_blocks:
  assumes "indicator \<in> set bot_indicators"
    and "contains indicator (lower (text_body r))"
    and "status_code r = 200"
    and "fetch w url attempt = Response r"
  shows "bot_detected (text_body r) \<and> blocked (Response r) \<and>
    attempts rnd w url max_retries (attempt # rest) =
      (fst (attempts rnd w url max_retries rest),
       backoff w attempt @ Request attempt #
       (if int attempt < max_retries - 1 then [Sleep (bot_delay w attempt)] else []) @
       snd (attempts rnd w url max_retries rest)) \<and>
    (Request attempt \<in> set (snd (get_price rnd w url max_retries)) \<longrightarrow>
      (\<exists>pre. get_price rnd w url max_retries =
         (fst (attempts rnd w url max_retries [Suc attempt..<nat max_retries]),
          pre @ backoff w attempt @ Request attempt #
          (if int attempt < max_retries - 1 then [Sleep (bot_delay w attempt)] else []) @
          snd (attempts rnd w url max_retries [Suc attempt..<nat max_retries]))))"
proof -
  have b: "bot_detected (text_body r)"
    using assms(1,2) by (rule bot_detected_indicator)
  have s: "\<not> raises_for_status r" using assms(3) by (rule status_200)
  have 1: "blocked (Response r)" using b s by (simp add: blocked_def)
  note 2 = attempts_blocked [OF assms(4) s b, of rnd max_retries rest]
  have 3: "Request attempt \<in> set (snd (get_price rnd w url max_retries)) \<longrightarrow>
      (\<exists>pre. get_price rnd w url max_retries =
         (fst (attempts rnd w url max_retries [Suc attempt..<nat max_retries]),
          pre @ backoff w attempt @ Request attempt #
          (if int attempt < max_retries - 1 then [Sleep (bot_delay w attempt)] else []) @
          snd (attempts rnd w url max_retries [Suc attempt..<nat max_retries])))"
    using get_price_blocked_attempt [OF assms(4) s b] by blast
  from b 1 2 3 show ?thesis by (intro conjI)
qed

theorem indicator_blocks_witness:
  "''robot check'' \<in> set bot_indicators \<and>
   contains ''robot check'' (lower (text_body captcha_page)) \<and>
   status_code captcha_page = 200 \<and>
   bot_detected (text_body captcha_page) \<and>
   get_price Finite blocked_first ''https://www.amazon.com/dp/B0'' 3 =
     (Some (Finite (79999 / 100)),
      [Request 0, Sleep 15, Sleep (15 / 4), Request 1, Select ''span.a-offscreen''])"
proof -
  have 1: "''robot check'' \<in> set bot_indicators" by (simp add: bot_indicators_def)
  have 2: "contains ''robot check'' (lower (text_body captcha_page))"
    unfolding captcha_page_def by code_simp
  have 3: "status_code captcha_page = 200" by (simp add: captcha_page_def)
  have 4: "fetch blocked_first ''https://www.amazon.com/dp/B0'' 0 = Response captcha_page"
    by (simp add: blocked_first_def)
  note t = indicator_blocks [OF 1 2 3 4, of Finite 3 "[1, 2]"]
  from t have b: "bot_detected (text_body captcha_page)" by (rule conjunct1)
  from t have a: "attempts Finite blocked_first ''https://www.amazon.com/dp/B0'' 3 (0 # [1, 2]) =
      (fst (attempts Finite blocked_first ''https://www.amazon.com/dp/B0'' 3 [1, 2]),
       backoff blocked_first 0 @ Request 0 #
       (if int 0 < 3 - 1 then [Sleep (bot_delay blocked_first 0)] else []) @
       snd (attempts Finite blocked_first ''https://www.amazon.com/dp/B0'' 3 [1, 2]))"
    by (elim conjE)
  have n: "attempts Finite blocked_first ''https://www.amazon.com/dp/B0'' 3 [1, 2] =
      (Some (Finite (79999 / 100)),
       backoff blocked_first 1 @ [Request 1, Select ''span.a-offscreen''])"
    by (rule attempt_product) (simp add: blocked_first_def)
  have u: "[0..<nat 3] = 0 # [1, 2]" by (simp add: upt_conv_Cons)
  have "get_price Finite blocked_first ''https://www.amazon.com/dp/B0'' 3 =
     (Some (Finite (79999 / 100)),
      [Request 0, Sleep 15, Sleep (15 / 4), Request 1, Select ''span.a-offscreen''])"
    unfolding get_price_def u a n by (simp add: backoff_def blocked_first_def)
  with 1 2 3 b show ?thesis by (intro conjI)
qed

text \<open>
  Claim C8. A run starts with the request of attempt 0, with no sleep before it, and makes
  no request when the budget is not positive. Every later attempt \<open>i\<close> that is made is
  directly preceded by a sleep of \<open>max 1 (2 + 1.5 * i + j)\<close> seconds, where \<open>j\<close> is the
  jitter drawn in that attempt, whatever its value.
\<close>

theorem backoff_before_retry:
  "(0 < max_retries \<longrightarrow>
      (\<exists>later. snd (get_price rnd w url max_retries) = Request 0 # later)) \<and>
   (max_retries \<le> 0 \<longrightarrow> snd (get_price rnd w url max_retries) = []) \<and>
   (\<forall>i. 1 \<le> i \<and> Request i \<in> set (snd (get_price rnd w url max_retries)) \<longrightarrow>
      (\<exists>pre post. snd (get_price rnd w url max_retries) =
         pre @ Sleep (max 1 (2 + 1.5 * real i + jitter w i)) # Request i # post))"
proof (intro conjI impI allI)
  assume "0 < max_retries"
  then have "[0..<nat max_retries] = 0 # [1..<nat max_retries]"
    by (simp add: upt_conv_Cons)
  then show "\<exists>later. snd (get_price rnd w url max_retries) = Request 0 # later"
    unfolding get_price_def using attempts_first [of rnd w url max_retries] by simp
next
  assume "max_retries \<le> 0"
  then show "snd (get_price rnd w url max_retries) = []"
    by (simp add: get_price_def)
next
  fix i :: nat
  assume a: "1 \<le> i \<and> Request i \<in> set (snd (get_price rnd w url max_retries))"
  then obtain pre post where
    "snd (get_price rnd w url max_retries) = pre @ backoff w i @ Request i # post"
    unfolding get_price_def using attempts_backoff by blast
  moreover have "backoff w i = [Sleep (max 1 (2 + 1.5 * real i + jitter w i))]"
    using a by (simp add: backoff_def mult.commute)
  ultimately have "snd (get_price rnd w url max_retries) =
      pre @ Sleep (max 1 (2 + 1.5 * real i + jitter w i)) # Request i # post"
    by simp
  then show "\<exists>pre post. snd (get_price rnd w url max_retries) =
      pre @ Sleep (max 1 (2 + 1.5 * real i + jitter w i)) # Request i # post"
    by blast
qed

theorem backoff_before_retry_witness:
  "Request 1 \<in> set (snd (get_price Finite second_time ''https://www.amazon.com/dp/B0'' 3)) \<and>
   (\<exists>pre post. snd (get_price Finite second_time ''https://www.amazon.com/dp/B0'' 3) =
      pre @ Sleep (15 / 4) # Request 1 # post) \<and>
   (\<exists>later. snd (get_price Finite second_time ''https://www.amazon.com/dp/B0'' 3) =
      Request 0 # later) \<and>
   snd (get_price Finite second_time ''https://www.amazon.com/dp/B0'' 0) = []"
proof -
  have m: "Request 1 \<in> set (snd (get_price Finite second_time ''https://www.amazon.com/dp/B0'' 3))"
    by (simp add: second_time_run)
  have j: "max 1 (2 + 1.5 * real 1 + jitter second_time 1) = 15 / 4"
    by (simp add: second_time_def)
  note t = backoff_before_retry [of 3 Finite second_time "''https://www.amazon.com/dp/B0''"]
  from t have a: "\<exists>later. snd (get_price Finite second_time ''https://www.amazon.com/dp/B0'' 3) =
      Request 0 # later"
    by simp
  from t have "1 \<le> (1 :: nat) \<and>
      Request 1 \<in> set (snd (get_price Finite second_time ''https://www.amazon.com/dp/B0'' 3)) \<longrightarrow>
      (\<exists>pre post. snd (get_price Finite second_time ''https://www.amazon.com/dp/B0'' 3) =
         pre @ Sleep (max 1 (2 + 1.5 * real 1 + jitter second_time 1)) # Request 1 # post)"
    by blast
  with m have "\<exists>pre post. snd (get_price Finite second_time ''https://www.amazon.com/dp/B0'' 3) =
      pre @ Sleep (max 1 (2 + 1.5 * real 1 + jitter second_time 1)) # Request 1 # post"
    by blast
  then have b: "\<exists>pre post. snd (get_price Finite second_time ''https://www.amazon.com/dp/B0'' 3) =
      pre @ Sleep (15 / 4) # Request 1 # post"
    unfolding j .
  note a b
  moreover from backoff_before_retry [of 0 Finite second_time "''https://www.amazon.com/dp/B0''"]
  have "snd (get_price Finite second_time ''https://www.amazon.com/dp/B0'' 0) = []"
    by simp
  ultimately show ?thesis using m by blast
qed

text \<open>
  Claim C9. \<^verbatim>\<open>parse_price\<close> returns a number exactly when the text has a digit.
\<close>

theorem parse_price_iff_digit:
  "(\<exists>p. parse_price rnd s = Some p) \<longleftrightarrow> (\<exists>c \<in> set s. is_digit c)"
proof
  assume "\<exists>p. parse_price rnd s = Some p"
  then have t: "try_patterns rnd price_patterns (cleaned s) \<noteq> None"
    unfolding parse_price_def parse_price_with_def by (cases "s = []") auto
  have "\<exists>c \<in> set (cleaned s). is_digit c"
  proof (rule ccontr)
    assume "\<not> (\<exists>c \<in> set (cleaned s). is_digit c)"
    then have "\<forall>c \<in> set (cleaned s). \<not> is_digit c" by simp
    then have "try_patterns rnd price_patterns (cleaned s) = None"
      by (rule try_patterns_no_digit)
    with t show False by simp
  qed
  then show "\<exists>c \<in> set s. is_digit c" by (simp only: digit_in_cleaned)
next
  assume a: "\<exists>c \<in> set s. is_digit c"
  then have n: "s \<noteq> []" by auto
  from a have "\<exists>c \<in> set (cleaned s). is_digit c" by (simp only: digit_in_cleaned)
  from try_patterns_standard [OF this, of rnd "[simple_format, european_format]"]
  obtain p where "try_patterns rnd price_patterns (cleaned s) = Some p"
    unfolding price_patterns_def by (elim exE conjE)
  with n show "\<exists>p. parse_price rnd s = Some p"
    by (simp add: parse_price_def parse_price_with_def)
qed

theorem parse_price_iff_digit_witness:
  "(\<exists>p. parse_price Finite ''about 7 left'' = Some p) \<and>
   parse_price Finite ''Currently unavailable.'' = None"
proof -
  have "\<exists>c \<in> set ''about 7 left''. is_digit c" by (simp add: is_digit_def)
  then have 1: "\<exists>p. parse_price Finite ''about 7 left'' = Some p"
    by (simp only: parse_price_iff_digit)
  have "\<not> (\<exists>c \<in> set ''Currently unavailable.''. is_digit c)" by (simp add: is_digit_def)
  then have "\<not> (\<exists>p. parse_price Finite ''Currently unavailable.'' = Some p)"
    using parse_price_iff_digit [of Finite "''Currently unavailable.''"] by blast
  then have 2: "parse_price Finite ''Currently unavailable.'' = None" by simp
  from 1 2 show ?thesis by blast
qed

text \<open>
  Claim C10. After \<^verbatim>\<open>update_price_history\<close> the list of the product has at most 100
  entries: the last 100 of its earlier entries followed by the new one, which comes last.
  The lists of the other products are unchanged, so when no list was longer than 100
  before the call, none is after it.
\<close>

theorem update_price_history_keeps_last_100:
  "(\<exists>entries. update_price_history h name price now name = Some entries \<and>
      length entries \<le> 100 \<and>
      last entries = \<lparr>entry_price = price, entry_timestamp = now\<rparr> \<and>
      entries =
        (let appended = (case h name of None \<Rightarrow> [] | Some old \<Rightarrow> old) @
                        [\<lparr>entry_price = price, entry_timestamp = now\<rparr>]
         in drop (length appended - 100) appended)) \<and>
   (\<forall>other. other \<noteq> name \<longrightarrow> update_price_history h name price now other = h other) \<and>
   ((\<forall>k entries. h k = Some entries \<longrightarrow> length entries \<le> 100) \<longrightarrow>
    (\<forall>k entries. update_price_history h name price now k = Some entries \<longrightarrow>
       length entries \<le> 100))"
proof -
  define appended where "appended = (case h name of None \<Rightarrow> [] | Some old \<Rightarrow> old) @
      [\<lparr>entry_price = price, entry_timestamp = now\<rparr>]"
  have u: "update_price_history h name price now = h(name \<mapsto> drop (length appended - 100) appended)"
    by (simp add: update_price_history_def appended_def Let_def)
  have l: "length (drop (length appended - 100) appended) \<le> 100" by simp
  have ne: "drop (length appended - 100) appended \<noteq> []" by (simp add: appended_def)
  have "last (drop (length appended - 100) appended) = last appended"
    by (rule last_drop) (simp add: appended_def)
  then have la: "last (drop (length appended - 100) appended) =
      \<lparr>entry_price = price, entry_timestamp = now\<rparr>"
    by (simp add: appended_def)
  show ?thesis
    unfolding u using l la by (auto simp: appended_def Let_def)
qed

theorem update_price_history_keeps_last_100_witness:
  "update_price_history full_history ''widget'' (Finite 4) ''2025-01-02T09:00:00'' ''widget'' =
     Some (replicate 99 \<lparr>entry_price = Finite 5, entry_timestamp = ''2025-01-01T09:00:00''\<rparr> @
           [\<lparr>entry_price = Finite 4, entry_timestamp = ''2025-01-02T09:00:00''\<rparr>]) \<and>
   update_price_history full_history ''widget'' (Finite 4) ''2025-01-02T09:00:00'' ''gadget'' = None \<and>
   \<not> (\<exists>k entries.
        update_price_history full_history ''widget'' (Finite 4) ''2025-01-02T09:00:00'' k = Some entries \<and>
        100 < length entries)"
proof -
  note t = update_price_history_keeps_last_100
    [of full_history "''widget''" "Finite 4" "''2025-01-02T09:00:00''"]
  from t have "\<exists>entries.
      update_price_history full_history ''widget'' (Finite 4) ''2025-01-02T09:00:00'' ''widget'' =
        Some entries \<and>
      length entries \<le> 100 \<and>
      last entries = \<lparr>entry_price = Finite 4, entry_timestamp = ''2025-01-02T09:00:00''\<rparr> \<and>
      entries =
        (let appended = (case full_history ''widget'' of None \<Rightarrow> [] | Some old \<Rightarrow> old) @
                        [\<lparr>entry_price = Finite 4, entry_timestamp = ''2025-01-02T09:00:00''\<rparr>]
         in drop (length appended - 100) appended)"
    by (rule conjunct1)
  then obtain entries where e:
    "update_price_history full_history ''widget'' (Finite 4) ''2025-01-02T09:00:00'' ''widget'' =
        Some entries"
    "entries =
        (let appended = (case full_history ''widget'' of None \<Rightarrow> [] | Some old \<Rightarrow> old) @
                        [\<lparr>entry_price = Finite 4, entry_timestamp = ''2025-01-02T09:00:00''\<rparr>]
         in drop (length appended - 100) appended)"
    by (elim exE conjE)
  have c: "(case full_history ''widget'' of None \<Rightarrow> [] | Some old \<Rightarrow> old) =
      replicate 100 \<lparr>entry_price = Finite 5, entry_timestamp = ''2025-01-01T09:00:00''\<rparr>"
    by (simp add: full_history_def)
  have l: "length (replicate 100 \<lparr>entry_price = Finite 5, entry_timestamp = ''2025-01-01T09:00:00''\<rparr>) = 100"
    by simp
  have "entries =
      tl (replicate 100 \<lparr>entry_price = Finite 5, entry_timestamp = ''2025-01-01T09:00:00''\<rparr>) @
      [\<lparr>entry_price = Finite 4, entry_timestamp = ''2025-01-02T09:00:00''\<rparr>]"
    using e(2) unfolding Let_def c drop_full [OF l] .
  then have "entries =
      replicate 99 \<lparr>entry_price = Finite 5, entry_timestamp = ''2025-01-01T09:00:00''\<rparr> @
      [\<lparr>entry_price = Finite 4, entry_timestamp = ''2025-01-02T09:00:00''\<rparr>]"
    by (simp add: tl_replicate)
  with e(1) have 1:
    "update_price_history full_history ''widget'' (Finite 4) ''2025-01-02T09:00:00'' ''widget'' =
     Some (replicate 99 \<lparr>entry_price = Finite 5, entry_timestamp = ''2025-01-01T09:00:00''\<rparr> @
           [\<lparr>entry_price = Finite 4, entry_timestamp = ''2025-01-02T09:00:00''\<rparr>])"
    by simp
  from t have "\<forall>other. other \<noteq> ''widget'' \<longrightarrow>
      update_price_history full_history ''widget'' (Finite 4) ''2025-01-02T09:00:00'' other =
        full_history other"
    by (elim conjE)
  moreover have "''gadget'' \<noteq> ''widget''" by simp
  ultimately have
    "update_price_history full_history ''widget'' (Finite 4) ''2025-01-02T09:00:00'' ''gadget'' =
       full_history ''gadget''"
    by (elim allE [of _ "''gadget''"] impE)
  then have 2:
    "update_price_history full_history ''widget'' (Finite 4) ''2025-01-02T09:00:00'' ''gadget'' = None"
    by (simp add: full_history_def)
  have "\<forall>k entries. full_history k = Some entries \<longrightarrow> length entries \<le> 100"
    by (auto simp: full_history_def split: if_splits)
  moreover from t have
    "(\<forall>k entries. full_history k = Some entries \<longrightarrow> length entries \<le> 100) \<longrightarrow>
     (\<forall>k entries.
        update_price_history full_history ''widget'' (Finite 4) ''2025-01-02T09:00:00'' k = Some entries \<longrightarrow>
        length entries \<le> 100)"
    by (elim conjE)
  ultimately have "\<forall>k entries.
      update_price_history full_history ''widget'' (Finite 4) ''2025-01-02T09:00:00'' k = Some entries \<longrightarrow>
      length entries \<le> 100"
    by (rule rev_mp)
  then have 3: "\<not> (\<exists>k entries.
      update_price_history full_history ''widget'' (Finite 4) ''2025-01-02T09:00:00'' k = Some entries \<and>
      100 < length entries)"
    by (meson not_less)
  from 1 2 3 show ?thesis by (intro conjI)
qed

end
